theory Spec2Isabelle
  imports Complex_Main "HOL-Library.Log_Nat"
begin

section \<open>Values of the store module\<close>

text \<open>
  A JavaScript \<^verbatim>\<open>number\<close> is an IEEE double. Every finite double is a rational, so the
  finite values are carried by \<^typ>\<open>rat\<close>; the three non-finite values are constructors of
  their own. Negative zero is identified with zero: no operation of the store tells them
  apart (there is no division and no \<^verbatim>\<open>Object.is\<close>).
\<close>

datatype jsnum = Num rat | NaN | PosInf | NegInf

text \<open>
  A JavaScript string is a sequence of UTF-16 code units. \<^verbatim>\<open>String.prototype.trim\<close>
  strips code units outside Latin-1 (U+2028, U+FEFF, ...), so code units are natural numbers
  rather than 8-bit characters.
\<close>

type_synonym jsstring = "nat list"

definition lit :: "string \<Rightarrow> jsstring" where
  "lit s = map of_char s"

subsection \<open>Number primitives\<close>

text \<open>\<^verbatim>\<open>Number.isFinite\<close>.\<close>

fun isFinite :: "jsnum \<Rightarrow> bool" where
  "isFinite (Num x) = True"
| "isFinite NaN = False"
| "isFinite PosInf = False"
| "isFinite NegInf = False"

text \<open>
  \<^verbatim>\<open>Math.round\<close>: the integral value closest to the argument, the one closer to
  \<open>+\<infinity>\<close> at a tie; \<^verbatim>\<open>NaN\<close> and the infinities are returned as they are.
\<close>

definition round_half_up :: "rat \<Rightarrow> int" where
  "round_half_up x = \<lfloor>x + 1 / 2\<rfloor>"

fun Math_round :: "jsnum \<Rightarrow> jsnum" where
  "Math_round (Num x) = Num (of_int (round_half_up x))"
| "Math_round NaN = NaN"
| "Math_round PosInf = PosInf"
| "Math_round NegInf = NegInf"

text \<open>\<^verbatim>\<open>Math.max\<close> of two arguments: \<^verbatim>\<open>NaN\<close> if either is \<^verbatim>\<open>NaN\<close>.\<close>

fun Math_max :: "jsnum \<Rightarrow> jsnum \<Rightarrow> jsnum" where
  "Math_max NaN b = NaN"
| "Math_max a NaN = NaN"
| "Math_max PosInf b = PosInf"
| "Math_max a PosInf = PosInf"
| "Math_max NegInf b = b"
| "Math_max a NegInf = a"
| "Math_max (Num x) (Num y) = Num (max x y)"

text \<open>
  Rounding to the nearest double, ties to even (the rounding of every arithmetic operator).
  \<open>binade x\<close> is the exponent \<open>e\<close> with \<open>2^e \<le> |x| < 2^(e+1)\<close>: with \<open>p / q\<close> the
  reduced fraction of \<open>|x|\<close> it is the difference of the bit lengths of \<open>p\<close> and \<open>q\<close>
  or one less. A double has 53 significant bits, so the doubles of that binade are the
  multiples of \<open>2^(e-52)\<close>; below \<open>2^-1022\<close> they are the multiples of \<open>2^-1074\<close>; a
  result of magnitude \<open>2^1024\<close> or more is infinite.
\<close>

definition pow2 :: "int \<Rightarrow> rat" where
  "pow2 k = (if 0 \<le> k then 2 ^ nat k else 1 / 2 ^ nat (- k))"

definition binade :: "rat \<Rightarrow> int" where
  "binade x =
     (let (p, q) = quotient_of \<bar>x\<bar>; k = bitlen p - bitlen q in
      if pow2 k \<le> \<bar>x\<bar> then k else k - 1)"

definition round_half_even :: "rat \<Rightarrow> int" where
  "round_half_even x =
     (let f = \<lfloor>x\<rfloor>; d = x - of_int f in
      if d < 1 / 2 then f else if 1 / 2 < d then f + 1 else if even f then f else f + 1)"

definition toDouble :: "rat \<Rightarrow> jsnum" where
  "toDouble x =
     (if x = 0 then Num 0
      else
        (let e = max (binade x) (- 1022);
             ulp = pow2 (e - 52);
             y = of_int (round_half_even (x / ulp)) * ulp
         in if pow2 1024 \<le> \<bar>y\<bar> then (if 0 < x then PosInf else NegInf) else Num y))"

text \<open>The operator \<^verbatim>\<open>+\<close> on numbers: the exact sum, rounded to a double.\<close>

fun js_add :: "jsnum \<Rightarrow> jsnum \<Rightarrow> jsnum" where
  "js_add NaN b = NaN"
| "js_add a NaN = NaN"
| "js_add PosInf NegInf = NaN"
| "js_add NegInf PosInf = NaN"
| "js_add PosInf b = PosInf"
| "js_add a PosInf = PosInf"
| "js_add NegInf b = NegInf"
| "js_add a NegInf = NegInf"
| "js_add (Num x) (Num y) = toDouble (x + y)"

text \<open>The operators \<^verbatim>\<open><\<close> and \<^verbatim>\<open><=\<close> on numbers: false as soon as one side is \<^verbatim>\<open>NaN\<close>.\<close>

fun js_lt :: "jsnum \<Rightarrow> jsnum \<Rightarrow> bool" where
  "js_lt NaN b = False"
| "js_lt a NaN = False"
| "js_lt a NegInf = False"
| "js_lt PosInf b = False"
| "js_lt NegInf b = True"
| "js_lt a PosInf = True"
| "js_lt (Num x) (Num y) = (x < y)"

fun js_le :: "jsnum \<Rightarrow> jsnum \<Rightarrow> bool" where
  "js_le NaN b = False"
| "js_le a NaN = False"
| "js_le NegInf b = True"
| "js_le a PosInf = True"
| "js_le a NegInf = False"
| "js_le PosInf b = False"
| "js_le (Num x) (Num y) = (x \<le> y)"

text \<open>\<^verbatim>\<open>Number.isInteger\<close> and \<^verbatim>\<open>Number.isSafeInteger\<close>.\<close>

fun isInteger :: "jsnum \<Rightarrow> bool" where
  "isInteger (Num x) = (of_int \<lfloor>x\<rfloor> = x)"
| "isInteger NaN = False"
| "isInteger PosInf = False"
| "isInteger NegInf = False"

fun isSafeInteger :: "jsnum \<Rightarrow> bool" where
  "isSafeInteger (Num x) = (of_int \<lfloor>x\<rfloor> = x \<and> \<bar>x\<bar> \<le> 9007199254740991)"
| "isSafeInteger NaN = False"
| "isSafeInteger PosInf = False"
| "isSafeInteger NegInf = False"

section \<open>Data model\<close>

text \<open>The interfaces of \<^verbatim>\<open>types.ts\<close>. An optional field is an \<^typ>\<open>'a option\<close>.\<close>

record WheelItem =
  item_id :: jsstring
  item_label :: jsstring
  item_weight :: jsnum

record SpinResult =
  spin_id :: jsstring
  spin_itemId :: jsstring
  spin_label :: jsstring
  spin_timestamp :: jsstring

record WheelList =
  list_id :: jsstring
  list_name :: jsstring
  list_description :: "jsstring option"
  list_items :: "WheelItem list"
  list_spins :: "SpinResult list"
  list_createdAt :: jsstring
  list_updatedAt :: jsstring

record DataFile =
  lists :: "WheelList list"

text \<open>The element type of \<^verbatim>\<open>CreateListPayload.items\<close>: no \<^verbatim>\<open>id\<close> field.\<close>

record NewItemInput =
  new_label :: jsstring
  new_weight :: "jsnum option"

text \<open>\<^verbatim>\<open>RawItemInput\<close>, also the element type of \<^verbatim>\<open>UpdateListPayload.items\<close>.\<close>

record RawItemInput =
  raw_id :: "jsstring option"
  raw_label :: jsstring
  raw_weight :: "jsnum option"

record CreateListPayload =
  create_name :: jsstring
  create_description :: "jsstring option"
  create_items :: "NewItemInput list option"

record UpdateListPayload =
  update_name :: "jsstring option"
  update_description :: "jsstring option"
  update_items :: "RawItemInput list option"

text \<open>
  What an operation can throw: the two codes of \<^verbatim>\<open>WheelStoreError\<close>, the file system's
  error for a missing file, its errors for a write that is refused (\<open>EACCES\<close>) or runs out
  of space (\<open>ENOSPC\<close>), and the two errors of \<^verbatim>\<open>crypto.randomInt\<close>.
\<close>

datatype error =
  NO_ITEMS | DATA_CORRUPT | ENOENT | EACCES | ENOSPC | ERR_INVALID_ARG_TYPE | ERR_OUT_OF_RANGE

section \<open>The environment of an operation\<close>

text \<open>
  The results of \<^verbatim>\<open>nanoid()\<close>, \<^verbatim>\<open>new Date().toISOString()\<close> and of the random source,
  and how the write of the data file ends, are not determined by the program. An operation
  receives them as inputs: \<open>nanoid e k\<close> is what the \<open>k\<close>-th call of \<^verbatim>\<open>nanoid()\<close>
  within the operation returns, \<open>now e\<close> the instant the clock shows, \<open>entropy e\<close> what
  the random source delivers, and \<open>disk e\<close> what becomes of the operation's call of
  \<^verbatim>\<open>fs.writeFile\<close> on the data file: it succeeds, it rejects before the file is opened
  and leaves the content as it was, or it rejects after the file has been truncated and
  leaves a part of the text, which does not parse.
\<close>

datatype write_result = Written | Refused | Torn

record env =
  nanoid :: "nat \<Rightarrow> jsstring"
  now :: jsstring
  entropy :: int
  disk :: write_result

text \<open>
  \<^verbatim>\<open>crypto.randomInt(max)\<close> of Node: both bounds must be safe integers, \<open>max\<close> must be
  greater than 0 and the range at most \<open>2 ^ 48 - 1\<close>; otherwise it throws. The result is
  some integer of \<open>[0, max)\<close>, here the random source's value reduced into that range, so
  that every value of the range is the result for some \<open>entropy\<close>.
\<close>

definition RAND_MAX :: rat where
  "RAND_MAX = 281474976710655"

definition randomInt :: "int \<Rightarrow> jsnum \<Rightarrow> error + int" where
  "randomInt r mx =
     (case mx of
        Num m \<Rightarrow>
          if \<not> isSafeInteger mx then Inl ERR_INVALID_ARG_TYPE
          else if m \<le> 0 then Inl ERR_OUT_OF_RANGE
          else if \<not> (m \<le> RAND_MAX) then Inl ERR_OUT_OF_RANGE
          else Inr (r mod \<lfloor>m\<rfloor>)
      | _ \<Rightarrow> Inl ERR_INVALID_ARG_TYPE)"

section \<open>Durable record store\<close>

text \<open>
  The data file is absent, holds text that \<^verbatim>\<open>JSON.parse\<close> rejects, or holds a document.
  \<^verbatim>\<open>JSON.stringify\<close> followed by \<^verbatim>\<open>JSON.parse\<close> is taken as the identity on documents.
  \<open>dataFileInitialization\<close> tells whether the module-level promise of that name has been
  set. \<^verbatim>\<open>writeDataFile\<close> ends as the environment's \<open>disk\<close> says.
\<close>

datatype filestate = Absent | Unparseable | Stored DataFile

record world =
  dataFileInitialization :: bool
  DATA_FILE :: filestate

definition ensureDataFile :: "world \<Rightarrow> world" where
  "ensureDataFile w =
     (if \<not> dataFileInitialization w then
        w\<lparr>dataFileInitialization := True,
          DATA_FILE := (case DATA_FILE w of
                          Absent \<Rightarrow> Stored \<lparr>lists = []\<rparr>
                        | c \<Rightarrow> c)\<rparr>
      else w)"

definition readDataFile :: "world \<Rightarrow> (error + DataFile) \<times> world" where
  "readDataFile w =
     (let w' = ensureDataFile w in
      case DATA_FILE w' of
        Absent \<Rightarrow> (Inl ENOENT, w')
      | Unparseable \<Rightarrow> (Inl DATA_CORRUPT, w')
      | Stored d \<Rightarrow> (Inr d, w'))"

definition writeDataFile :: "env \<Rightarrow> DataFile \<Rightarrow> world \<Rightarrow> (error + unit) \<times> world" where
  "writeDataFile e data w =
     (let w' = ensureDataFile w in
      case disk e of
        Written \<Rightarrow> (Inr (), w'\<lparr>DATA_FILE := Stored data\<rparr>)
      | Refused \<Rightarrow> (Inl EACCES, w')
      | Torn \<Rightarrow> (Inl ENOSPC, w'\<lparr>DATA_FILE := Unparseable\<rparr>))"

section \<open>Entity normalizer\<close>

text \<open>
  \<^verbatim>\<open>String.prototype.trim\<close> removes the white space and line terminator code units of
  ECMAScript from both ends.
\<close>

definition isWhiteSpace :: "nat \<Rightarrow> bool" where
  "isWhiteSpace c =
     (c = 9 \<or> c = 10 \<or> c = 11 \<or> c = 12 \<or> c = 13 \<or> c = 32 \<or> c = 160 \<or> c = 5760
      \<or> (8192 \<le> c \<and> c \<le> 8202) \<or> c = 8232 \<or> c = 8233 \<or> c = 8239 \<or> c = 8287
      \<or> c = 12288 \<or> c = 65279)"

definition trim :: "jsstring \<Rightarrow> jsstring" where
  "trim s = rev (dropWhile isWhiteSpace (rev (dropWhile isWhiteSpace s)))"

text \<open>
  \<^verbatim>\<open>normalizeWeight(weight: number | undefined)\<close>: \<^verbatim>\<open>Number(weight ?? 1)\<close> is the
  weight itself, or 1 where it is missing.
\<close>

definition normalizeWeight :: "jsnum option \<Rightarrow> jsnum" where
  "normalizeWeight weight =
     (let parsed = (case weight of None \<Rightarrow> Num 1 | Some w \<Rightarrow> w) in
      if \<not> isFinite parsed then Num 1
      else let rounded = Math_round parsed in Math_max (Num 1) rounded)"

text \<open>
  \<^verbatim>\<open>normalizeItems\<close>: the \<^verbatim>\<open>reduce\<close> is a loop over the items with the accumulator
  \<open>acc\<close>; \<open>k\<close> counts the calls of \<^verbatim>\<open>nanoid()\<close> made so far and is returned with the
  items.
\<close>

fun normalizeItems_reduce ::
  "(nat \<Rightarrow> jsstring) \<Rightarrow> nat \<Rightarrow> WheelItem list \<Rightarrow> RawItemInput list \<Rightarrow> WheelItem list \<times> nat"
where
  "normalizeItems_reduce gen k acc [] = (acc, k)"
| "normalizeItems_reduce gen k acc (item # rest) =
     (let label = trim (raw_label item) in
      if label = [] then normalizeItems_reduce gen k acc rest
      else
        (case raw_id item of
           Some i \<Rightarrow>
             normalizeItems_reduce gen k
               (acc @ [\<lparr>item_id = i, item_label = label,
                        item_weight = normalizeWeight (raw_weight item)\<rparr>]) rest
         | None \<Rightarrow>
             normalizeItems_reduce gen (Suc k)
               (acc @ [\<lparr>item_id = gen k, item_label = label,
                        item_weight = normalizeWeight (raw_weight item)\<rparr>]) rest))"

definition normalizeItems ::
  "(nat \<Rightarrow> jsstring) \<Rightarrow> nat \<Rightarrow> RawItemInput list \<Rightarrow> WheelItem list \<times> nat"
where
  "normalizeItems gen k items = normalizeItems_reduce gen k [] items"

definition sanitizeName :: "jsstring option \<Rightarrow> jsstring" where
  "sanitizeName name =
     (let trimmed = (case name of None \<Rightarrow> [] | Some n \<Rightarrow> trim n) in
      if length trimmed > 0 then trimmed else lit ''Untitled wheel'')"

definition sanitizeDescription :: "jsstring option \<Rightarrow> jsstring option" where
  "sanitizeDescription description =
     (case description of
        None \<Rightarrow> None
      | Some d \<Rightarrow> (let trimmed = trim d in if length trimmed > 0 then Some trimmed else None))"

text \<open>
  The item normalization of the second store variant of the source: a \<^verbatim>\<open>filter\<close>
  followed by a \<^verbatim>\<open>map\<close>, the weight computed inline as
  \<^verbatim>\<open>Math.max(1, Math.round(item.weight ?? 1))\<close>.
\<close>

fun normalizeItems_v2_map ::
  "(nat \<Rightarrow> jsstring) \<Rightarrow> nat \<Rightarrow> RawItemInput list \<Rightarrow> WheelItem list"
where
  "normalizeItems_v2_map gen k [] = []"
| "normalizeItems_v2_map gen k (item # rest) =
     \<lparr>item_id = (case raw_id item of Some i \<Rightarrow> i | None \<Rightarrow> gen k),
      item_label = trim (raw_label item),
      item_weight =
        Math_max (Num 1) (Math_round (case raw_weight item of None \<Rightarrow> Num 1 | Some w \<Rightarrow> w))\<rparr>
     # normalizeItems_v2_map gen (case raw_id item of Some i \<Rightarrow> k | None \<Rightarrow> Suc k) rest"

definition normalizeItems_v2 ::
  "(nat \<Rightarrow> jsstring) \<Rightarrow> nat \<Rightarrow> RawItemInput list \<Rightarrow> WheelItem list"
where
  "normalizeItems_v2 gen k items =
     normalizeItems_v2_map gen k (filter (\<lambda>item. length (trim (raw_label item)) > 0) items)"

section \<open>Wheel repository\<close>

text \<open>\<^verbatim>\<open>Array.prototype.findIndex\<close>; \<open>None\<close> stands for \<open>-1\<close>.\<close>

fun findIndex :: "('a \<Rightarrow> bool) \<Rightarrow> 'a list \<Rightarrow> nat option" where
  "findIndex P [] = None"
| "findIndex P (x # xs) = (if P x then Some 0 else map_option Suc (findIndex P xs))"

definition MAX_SPIN_HISTORY :: nat where
  "MAX_SPIN_HISTORY = 20"

text \<open>
  Each operation is the body that the source hands to \<^verbatim>\<open>runSerial\<close>: from the
  environment, the arguments and the world to what it returns or throws and the world it
  leaves. \<open>Inl\<close> is a thrown error; the sentinel \<^verbatim>\<open>undefined\<close> is \<open>Inr None\<close>.
\<close>

definition createList :: "env \<Rightarrow> CreateListPayload \<Rightarrow> world \<Rightarrow> (error + WheelList) \<times> world" where
  "createList e payload w =
     (let list = \<lparr>list_id = nanoid e 0,
                  list_name = sanitizeName (Some (create_name payload)),
                  list_description = sanitizeDescription (create_description payload),
                  list_items =
                    fst (normalizeItems (nanoid e) 1
                      (map (\<lambda>n. \<lparr>raw_id = None, raw_label = new_label n,
                                  raw_weight = new_weight n\<rparr>)
                         (case create_items payload of None \<Rightarrow> [] | Some its \<Rightarrow> its))),
                  list_spins = [],
                  list_createdAt = now e,
                  list_updatedAt = now e\<rparr>
      in case readDataFile w of
           (Inl err, w') \<Rightarrow> (Inl err, w')
         | (Inr data, w') \<Rightarrow>
             (case writeDataFile e (data\<lparr>lists := lists data @ [list]\<rparr>) w' of
                (Inl err, w'') \<Rightarrow> (Inl err, w'')
              | (Inr u, w'') \<Rightarrow> (Inr list, w'')))"

definition updateList ::
  "env \<Rightarrow> jsstring \<Rightarrow> UpdateListPayload \<Rightarrow> world \<Rightarrow> (error + WheelList option) \<times> world"
where
  "updateList e i payload w =
     (case readDataFile w of
        (Inl err, w') \<Rightarrow> (Inl err, w')
      | (Inr data, w') \<Rightarrow>
          (case findIndex (\<lambda>list. list_id list = i) (lists data) of
             None \<Rightarrow> (Inr None, w')
           | Some index \<Rightarrow>
               (let list = lists data ! index;
                    updated = list
                      \<lparr>list_name :=
                         (case update_name payload of
                            Some n \<Rightarrow> sanitizeName (Some n)
                          | None \<Rightarrow> list_name list),
                       list_description :=
                         (case update_description payload of
                            Some d \<Rightarrow> sanitizeDescription (Some d)
                          | None \<Rightarrow> list_description list),
                       list_items :=
                         (case update_items payload of
                            Some its \<Rightarrow> fst (normalizeItems (nanoid e) 0 its)
                          | None \<Rightarrow> list_items list),
                       list_updatedAt := now e\<rparr>
                in case writeDataFile e (data\<lparr>lists := (lists data)[index := updated]\<rparr>) w' of
                     (Inl err, w'') \<Rightarrow> (Inl err, w'')
                   | (Inr u, w'') \<Rightarrow> (Inr (Some updated), w''))))"

definition deleteList :: "env \<Rightarrow> jsstring \<Rightarrow> world \<Rightarrow> (error + bool) \<times> world" where
  "deleteList e i w =
     (case readDataFile w of
        (Inl err, w') \<Rightarrow> (Inl err, w')
      | (Inr data, w') \<Rightarrow>
          (let nextLists = filter (\<lambda>list. list_id list \<noteq> i) (lists data);
               changed = (length nextLists \<noteq> length (lists data))
           in if \<not> changed then (Inr False, w')
              else
                (case writeDataFile e \<lparr>lists = nextLists\<rparr> w' of
                   (Inl err, w'') \<Rightarrow> (Inl err, w'')
                 | (Inr u, w'') \<Rightarrow> (Inr True, w''))))"

text \<open>
  The parts of \<^verbatim>\<open>recordSpin\<close>: the \<^verbatim>\<open>reduce\<close> that sums the weights, the
  \<^verbatim>\<open>for\<close> loop that accumulates \<open>running\<close> and leaves \<open>selected\<close> undefined
  (\<open>None\<close>) when it ends without a \<^verbatim>\<open>break\<close>, and the fallback
  \<^verbatim>\<open>selected ?? list.items[list.items.length - 1]\<close>, evaluated on a list that is not
  empty.
\<close>

definition totalWeight :: "WheelItem list \<Rightarrow> jsnum" where
  "totalWeight its = foldl (\<lambda>sum item. js_add sum (item_weight item)) (Num 0) its"

fun scan :: "jsnum \<Rightarrow> jsnum \<Rightarrow> WheelItem list \<Rightarrow> WheelItem option" where
  "scan target running [] = None"
| "scan target running (item # rest) =
     (let running' = js_add running (item_weight item) in
      if js_lt target running' then Some item else scan target running' rest)"

definition chosen :: "WheelItem list \<Rightarrow> int \<Rightarrow> WheelItem" where
  "chosen its target =
     (case scan (Num (of_int target)) (Num 0) its of
        Some selected \<Rightarrow> selected
      | None \<Rightarrow> last its)"

definition recordSpin :: "env \<Rightarrow> jsstring \<Rightarrow> world \<Rightarrow> (error + SpinResult option) \<times> world" where
  "recordSpin e i w =
     (case readDataFile w of
        (Inl err, w') \<Rightarrow> (Inl err, w')
      | (Inr data, w') \<Rightarrow>
          (case findIndex (\<lambda>list. list_id list = i) (lists data) of
             None \<Rightarrow> (Inr None, w')
           | Some index \<Rightarrow>
               (let list = lists data ! index in
                if list_items list = [] then (Inl NO_ITEMS, w')
                else if js_le (totalWeight (list_items list)) (Num 0) then (Inl NO_ITEMS, w')
                else
                  (case randomInt (entropy e) (totalWeight (list_items list)) of
                     Inl err \<Rightarrow> (Inl err, w')
                   | Inr target \<Rightarrow>
                       (let c = chosen (list_items list) target;
                            timestamp = now e;
                            spin = \<lparr>spin_id = nanoid e 0, spin_itemId = item_id c,
                                    spin_label = item_label c, spin_timestamp = timestamp\<rparr>;
                            updated = list
                              \<lparr>list_spins := take MAX_SPIN_HISTORY (spin # list_spins list),
                               list_updatedAt := timestamp\<rparr>
                        in case writeDataFile e
                                  (data\<lparr>lists := (lists data)[index := updated]\<rparr>) w' of
                             (Inl err, w'') \<Rightarrow> (Inl err, w'')
                           | (Inr u, w'') \<Rightarrow> (Inr (Some spin), w''))))))"

text \<open>
  The bucket bounds that the selection is stated with: the integer value of a weight and
  the sum of the first \<open>n\<close> of them.
\<close>

definition int_weight :: "WheelItem \<Rightarrow> int" where
  "int_weight item = (case item_weight item of Num x \<Rightarrow> \<lfloor>x\<rfloor> | _ \<Rightarrow> 0)"

definition cumulative :: "WheelItem list \<Rightarrow> nat \<Rightarrow> int" where
  "cumulative its n = sum_list (map int_weight (take n its))"

section \<open>Runs of the store\<close>

text \<open>The two reads of the store, which do not go through the queue.\<close>

definition getLists :: "world \<Rightarrow> (error + WheelList list) \<times> world" where
  "getLists w =
     (case readDataFile w of
        (Inl err, w') \<Rightarrow> (Inl err, w')
      | (Inr data, w') \<Rightarrow> (Inr (lists data), w'))"

definition getList :: "jsstring \<Rightarrow> world \<Rightarrow> (error + WheelList option) \<times> world" where
  "getList i w =
     (case readDataFile w of
        (Inl err, w') \<Rightarrow> (Inl err, w')
      | (Inr data, w') \<Rightarrow> (Inr (find (\<lambda>list. list_id list = i) (lists data)), w'))"

text \<open>
  A call of the store's interface with its environment, and what it does to the world.
  \<open>chronicle\<close> keeps, beside the document and in the order of its lists, the complete
  record of the spins made on each list, newest first (the document itself keeps only
  \<open>MAX_SPIN_HISTORY\<close> of them).
\<close>

datatype call =
    GetLists
  | GetList jsstring
  | CreateList env CreateListPayload
  | UpdateList env jsstring UpdateListPayload
  | DeleteList env jsstring
  | RecordSpin env jsstring

fun perform :: "call \<Rightarrow> world \<Rightarrow> world" where
  "perform GetLists w = snd (getLists w)"
| "perform (GetList i) w = snd (getList i w)"
| "perform (CreateList e payload) w = snd (createList e payload w)"
| "perform (UpdateList e i payload) w = snd (updateList e i payload w)"
| "perform (DeleteList e i) w = snd (deleteList e i w)"
| "perform (RecordSpin e i) w = snd (recordSpin e i w)"

fun chronicle :: "call \<Rightarrow> world \<Rightarrow> SpinResult list list \<Rightarrow> SpinResult list list" where
  "chronicle (CreateList e payload) w h =
     (case fst (createList e payload w) of Inl err \<Rightarrow> h | Inr list \<Rightarrow> h @ [[]])"
| "chronicle (DeleteList e i) w h =
     (case fst (deleteList e i w) of
        Inr True \<Rightarrow>
          (case fst (readDataFile w) of
             Inl err \<Rightarrow> h
           | Inr data \<Rightarrow>
               map snd (filter (\<lambda>(list, s). list_id list \<noteq> i) (zip (lists data) h)))
      | _ \<Rightarrow> h)"
| "chronicle (RecordSpin e i) w h =
     (case fst (recordSpin e i w) of
        Inr (Some spin) \<Rightarrow>
          (case fst (readDataFile w) of
             Inl err \<Rightarrow> h
           | Inr data \<Rightarrow>
               (case findIndex (\<lambda>list. list_id list = i) (lists data) of
                  None \<Rightarrow> h
                | Some index \<Rightarrow> h[index := spin # h ! index]))
      | _ \<Rightarrow> h)"
| "chronicle c w h = h"

fun run :: "call list \<Rightarrow> world \<times> SpinResult list list \<Rightarrow> world \<times> SpinResult list list" where
  "run [] s = s"
| "run (c # cs) (w, h) = run cs (perform c w, chronicle c w h)"

text \<open>
  Before the first call there is no data file. \<open>aligned\<close> relates a world to the
  record of its spins: list by list, the stored spins are the first \<open>MAX_SPIN_HISTORY\<close>
  recorded ones. A file that a torn write has left without a document holds no list.
\<close>

definition initial :: world where
  "initial = \<lparr>dataFileInitialization = False, DATA_FILE = Absent\<rparr>"

definition aligned :: "world \<Rightarrow> SpinResult list list \<Rightarrow> bool" where
  "aligned w h =
     (case DATA_FILE w of
        Absent \<Rightarrow> \<not> dataFileInitialization w \<and> h = []
      | Unparseable \<Rightarrow> True
      | Stored d \<Rightarrow>
          list_all2 (\<lambda>list s. list_spins list = take MAX_SPIN_HISTORY s) (lists d) h)"

section \<open>Serialization queue\<close>

text \<open>
  \<^verbatim>\<open>runSerial\<close> chains promises, so its model is a store of promises and the jobs of
  the event loop. A promise is an address; \<open>promises\<close> maps it to its state. A call
  \<^verbatim>\<open>p.then(f, g)\<close> allocates the derived promise and registers a reaction on \<open>p\<close>; once
  \<open>p\<close> is settled the reaction's job may run, calling \<open>f\<close> when \<open>p\<close> is fulfilled and
  \<open>g\<close> when it is rejected. The two handlers that \<^verbatim>\<open>runSerial\<close> passes are the
  submitted \<open>operation\<close> (the \<open>k\<close>-th submission is \<open>Operation k\<close>) and
  \<^verbatim>\<open>() => undefined\<close>. Calling an operation starts its execution; the promise derived by
  \<^verbatim>\<open>then\<close> follows the promise the operation returns, so it settles, fulfilled or
  rejected, when the operation finishes. The jobs of the loop and the completions of the
  operations may come in any order that the promise states allow.
  \<^verbatim>\<open>createList\<close>, \<^verbatim>\<open>updateList\<close>, \<^verbatim>\<open>deleteList\<close> and \<^verbatim>\<open>recordSpin\<close> each hand
  their whole body to \<^verbatim>\<open>runSerial\<close>; what a body does is modelled in the sections
  above, and here only whether it is waiting, executing or finished.
\<close>

datatype pstate = Pending | Fulfilled | Rejected

datatype handler = Operation nat | ReturnUndefined

record reaction =
  source :: nat
  onFulfilled :: handler
  onRejected :: handler
  derived :: nat

datatype phase = Waiting | Executing nat | Finished pstate

record scheduler =
  promises :: "nat \<Rightarrow> pstate"
  allocated :: nat
  reactions :: "reaction list"
  operations :: "nat \<Rightarrow> phase"
  submitted :: nat
  queue :: nat

text \<open>\<^verbatim>\<open>p.then(f, g)\<close>, returning the derived promise.\<close>

definition promise_then :: "nat \<Rightarrow> handler \<Rightarrow> handler \<Rightarrow> scheduler \<Rightarrow> nat \<times> scheduler" where
  "promise_then p f g s =
     (let d = allocated s in
      (d, s\<lparr>promises := (promises s)(d := Pending),
             allocated := Suc d,
             reactions := reactions s @ [\<lparr>source = p, onFulfilled = f, onRejected = g, derived = d\<rparr>]\<rparr>))"

text \<open>
  \<^verbatim>\<open>runSerial(operation)\<close>: \<open>next = this.queue.then(operation, operation)\<close>, then
  \<open>this.queue = next.then(() => undefined, () => undefined)\<close>; it returns \<open>next\<close>.
\<close>

definition runSerial :: "scheduler \<Rightarrow> nat \<times> scheduler" where
  "runSerial s =
     (let operation = submitted s;
          s0 = s\<lparr>operations := (operations s)(operation := Waiting), submitted := Suc operation\<rparr>;
          (next, s1) = promise_then (queue s0) (Operation operation) (Operation operation) s0;
          (q, s2) = promise_then next ReturnUndefined ReturnUndefined s1
      in (next, s2\<lparr>queue := q\<rparr>))"

text \<open>
  The events of the loop: a call of \<^verbatim>\<open>runSerial\<close>, the job of the \<open>i\<close>-th pending
  reaction, and the end of an operation with its outcome. \<open>fire\<close> is \<open>None\<close> where the
  event cannot happen.
\<close>

fun invoke :: "handler \<Rightarrow> nat \<Rightarrow> scheduler \<Rightarrow> scheduler" where
  "invoke (Operation k) d s = s\<lparr>operations := (operations s)(k := Executing d)\<rparr>"
| "invoke ReturnUndefined d s = s\<lparr>promises := (promises s)(d := Fulfilled)\<rparr>"

datatype event = Submit | React nat | Settle nat pstate

fun fire :: "event \<Rightarrow> scheduler \<Rightarrow> scheduler option" where
  "fire Submit s = Some (snd (runSerial s))"
| "fire (React i) s =
     (if i < length (reactions s) then
        (let r = reactions s ! i; st = promises s (source r) in
         if st = Pending then None
         else Some (invoke (if st = Fulfilled then onFulfilled r else onRejected r) (derived r)
                      (s\<lparr>reactions := remove1 r (reactions s)\<rparr>)))
      else None)"
| "fire (Settle k outcome) s =
     (case operations s k of
        Executing p \<Rightarrow>
          if outcome = Pending then None
          else Some (s\<lparr>operations := (operations s)(k := Finished outcome),
                       promises := (promises s)(p := outcome)\<rparr>)
      | _ \<Rightarrow> None)"

fun execute :: "event list \<Rightarrow> scheduler \<Rightarrow> scheduler option" where
  "execute [] s = Some s"
| "execute (e # es) s = (case fire e s of None \<Rightarrow> None | Some s' \<Rightarrow> execute es s')"

text \<open>The queue of a new store: \<^verbatim>\<open>Promise.resolve()\<close>, nothing submitted.\<close>

definition idle :: scheduler where
  "idle = \<lparr>promises = (\<lambda>p. Pending)(0 := Fulfilled), allocated = 1, reactions = [],
           operations = (\<lambda>k. Waiting), submitted = 0, queue = 0\<rparr>"

text \<open>
  The shape of a reachable state: the two reactions that the \<open>k\<close>-th call of
  \<^verbatim>\<open>runSerial\<close> registers, and how the phase of the \<open>k\<close>-th operation is tied to the
  promises \<open>2k\<close> (the queue before the call), \<open>2k + 1\<close> (\<open>next\<close>) and \<open>2k + 2\<close>
  (the queue after it).
\<close>

definition start :: "nat \<Rightarrow> reaction" where
  "start k = \<lparr>source = 2 * k, onFulfilled = Operation k, onRejected = Operation k,
              derived = 2 * k + 1\<rparr>"

definition swallow :: "nat \<Rightarrow> reaction" where
  "swallow k = \<lparr>source = 2 * k + 1, onFulfilled = ReturnUndefined, onRejected = ReturnUndefined,
                derived = 2 * k + 2\<rparr>"

definition link :: "scheduler \<Rightarrow> nat \<Rightarrow> bool" where
  "link s k =
     ((start k \<in> set (reactions s) \<longleftrightarrow> operations s k = Waiting)
      \<and> (swallow k \<in> set (reactions s) \<longleftrightarrow> promises s (2 * k + 2) = Pending)
      \<and> promises s (2 * k + 2) \<noteq> Rejected
      \<and> (promises s (2 * k + 2) = Fulfilled \<longrightarrow> promises s (2 * k + 1) \<noteq> Pending)
      \<and> (case operations s k of
            Waiting \<Rightarrow> promises s (2 * k + 1) = Pending
          | Executing p \<Rightarrow>
              p = 2 * k + 1 \<and> promises s (2 * k + 1) = Pending \<and> promises s (2 * k) = Fulfilled
          | Finished outcome \<Rightarrow>
              promises s (2 * k + 1) = outcome \<and> outcome \<noteq> Pending
              \<and> promises s (2 * k) = Fulfilled))"

definition chained :: "scheduler \<Rightarrow> bool" where
  "chained s =
     (allocated s = 2 * submitted s + 1 \<and> queue s = 2 * submitted s
      \<and> promises s 0 = Fulfilled \<and> distinct (reactions s)
      \<and> (\<forall>r\<in>set (reactions s). \<exists>k<submitted s. r = start k \<or> r = swallow k)
      \<and> (\<forall>k<submitted s. link s k)
      \<and> (\<forall>k\<ge>submitted s. operations s k = Waiting))"

section \<open>Example inputs\<close>

text \<open>
  Concrete inputs on which the theorems below are instantiated: an id generator, raw items
  (one with a blank label, one with an id of its own, one with a \<^verbatim>\<open>NaN\<close> weight), a
  document with an empty list and a list of two items, environments in which the write
  succeeds, is refused and is torn, items with a negative weight, items whose sums leave
  the range in which doubles are exact and a document that holds them, a list whose only
  item weighs \<open>10 ^ 15\<close>,
  payloads, a run of three calls with the document it ends in, and a schedule of the queue
  in which the first of two operations is rejected.
\<close>

definition ex_gen :: "nat \<Rightarrow> jsstring" where
  "ex_gen n = lit ''id'' @ [48 + n]"

definition ex_raw :: "RawItemInput list" where
  "ex_raw =
     [\<lparr>raw_id = None, raw_label = lit '' Red '', raw_weight = None\<rparr>,
      \<lparr>raw_id = Some (lit ''b1''), raw_label = lit ''   '', raw_weight = Some (Num 3)\<rparr>,
      \<lparr>raw_id = Some (lit ''k9''), raw_label = lit ''Blue'', raw_weight = Some (Num (5 / 2))\<rparr>,
      \<lparr>raw_id = None, raw_label = lit ''Green'', raw_weight = Some NaN\<rparr>]"

definition ex_items :: "WheelItem list" where
  "ex_items =
     [\<lparr>item_id = lit ''a'', item_label = lit ''Red'', item_weight = Num 1\<rparr>,
      \<lparr>item_id = lit ''b'', item_label = lit ''Blue'', item_weight = Num 3\<rparr>]"

definition ex_data :: DataFile where
  "ex_data =
     \<lparr>lists =
        [\<lparr>list_id = lit ''L0'', list_name = lit ''Empty'', list_description = None,
          list_items = [], list_spins = [],
          list_createdAt = lit ''2024-05-01T10:00:00.000Z'',
          list_updatedAt = lit ''2024-05-01T10:00:00.000Z''\<rparr>,
         \<lparr>list_id = lit ''L1'', list_name = lit ''Colors'', list_description = Some (lit ''two''),
          list_items = ex_items, list_spins = [],
          list_createdAt = lit ''2024-05-01T10:00:00.000Z'',
          list_updatedAt = lit ''2024-05-01T10:00:00.000Z''\<rparr>]\<rparr>"

definition ex_world :: world where
  "ex_world = \<lparr>dataFileInitialization = True, DATA_FILE = Stored ex_data\<rparr>"

definition ex_env :: env where
  "ex_env =
     \<lparr>nanoid = ex_gen, now = lit ''2024-05-02T08:30:00.000Z'', entropy = 1, disk = Written\<rparr>"



definition ex_signed_items :: "WheelItem list" where
  "ex_signed_items =
     [\<lparr>item_id = lit ''a'', item_label = lit ''Red'', item_weight = Num 2\<rparr>,
      \<lparr>item_id = lit ''b'', item_label = lit ''Blue'', item_weight = Num (- 1)\<rparr>,
      \<lparr>item_id = lit ''c'', item_label = lit ''Green'', item_weight = Num 2\<rparr>]"

definition ex_large_items :: "WheelItem list" where
  "ex_large_items =
     [\<lparr>item_id = lit ''a'', item_label = lit ''Red'', item_weight = Num (- 9007199254740992)\<rparr>,
      \<lparr>item_id = lit ''b'', item_label = lit ''Blue'', item_weight = Num (- 1)\<rparr>,
      \<lparr>item_id = lit ''c'', item_label = lit ''Green'', item_weight = Num 9007199254740994\<rparr>,
      \<lparr>item_id = lit ''d'', item_label = lit ''Black'', item_weight = Num 5\<rparr>]"

definition ex_large_world :: world where
  "ex_large_world =
     \<lparr>dataFileInitialization = True,
      DATA_FILE = Stored
        \<lparr>lists =
           [\<lparr>list_id = lit ''L3'', list_name = lit ''Large'', list_description = None,
             list_items = ex_large_items, list_spins = [],
             list_createdAt = lit ''2024-05-01T10:00:00.000Z'',
             list_updatedAt = lit ''2024-05-01T10:00:00.000Z''\<rparr>]\<rparr>\<rparr>"

definition ex_heavy_world :: world where
  "ex_heavy_world =
     \<lparr>dataFileInitialization = True,
      DATA_FILE = Stored
        \<lparr>lists =
           [\<lparr>list_id = lit ''L2'', list_name = lit ''Heavy'', list_description = None,
             list_items =
               [\<lparr>item_id = lit ''h'', item_label = lit ''Only'',
                 item_weight = Num 1000000000000000\<rparr>],
             list_spins = [],
             list_createdAt = lit ''2024-05-01T10:00:00.000Z'',
             list_updatedAt = lit ''2024-05-01T10:00:00.000Z''\<rparr>]\<rparr>\<rparr>"

definition ex_update :: UpdateListPayload where
  "ex_update = \<lparr>update_name = Some (lit '' New Name ''), update_description = None,
                update_items = None\<rparr>"

definition ex_create :: CreateListPayload where
  "ex_create = \<lparr>create_name = lit ''Colors'', create_description = None,
                create_items = Some [\<lparr>new_label = lit ''Red'', new_weight = None\<rparr>,
                                     \<lparr>new_label = lit ''Blue'', new_weight = Some (Num 2)\<rparr>]\<rparr>"

definition ex_env_spin1 :: env where
  "ex_env_spin1 =
     \<lparr>nanoid = (\<lambda>n. lit ''s1-'' @ [48 + n]), now = lit ''2024-05-02T09:00:00.000Z'',
      entropy = 0, disk = Written\<rparr>"

definition ex_env_spin2 :: env where
  "ex_env_spin2 =
     \<lparr>nanoid = (\<lambda>n. lit ''s2-'' @ [48 + n]), now = lit ''2024-05-02T09:05:00.000Z'',
      entropy = 7, disk = Written\<rparr>"

definition ex_calls :: "call list" where
  "ex_calls =
     [CreateList ex_env ex_create, RecordSpin ex_env_spin1 (ex_gen 0),
      RecordSpin ex_env_spin2 (ex_gen 0)]"

definition ex_history :: "SpinResult list" where
  "ex_history =
     [\<lparr>spin_id = lit ''s2-0'', spin_itemId = lit ''id2'', spin_label = lit ''Blue'',
       spin_timestamp = lit ''2024-05-02T09:05:00.000Z''\<rparr>,
      \<lparr>spin_id = lit ''s1-0'', spin_itemId = lit ''id1'', spin_label = lit ''Red'',
       spin_timestamp = lit ''2024-05-02T09:00:00.000Z''\<rparr>]"

definition ex_spun_data :: DataFile where
  "ex_spun_data =
     \<lparr>lists =
        [\<lparr>list_id = lit ''id0'', list_name = lit ''Colors'', list_description = None,
          list_items =
            [\<lparr>item_id = lit ''id1'', item_label = lit ''Red'', item_weight = Num 1\<rparr>,
             \<lparr>item_id = lit ''id2'', item_label = lit ''Blue'', item_weight = Num 2\<rparr>],
          list_spins = ex_history,
          list_createdAt = lit ''2024-05-02T08:30:00.000Z'',
          list_updatedAt = lit ''2024-05-02T09:05:00.000Z''\<rparr>]\<rparr>"

definition ex_events :: "event list" where
  "ex_events = [Submit, Submit, React 0, Settle 0 Rejected]"

section \<open>Weight normalization\<close>

lemma round_half_up_nearest: "\<bar>of_int (round_half_up x) - x\<bar> \<le> 1 / 2"
proof -
  have lo: "of_int \<lfloor>x + 1 / 2\<rfloor> \<le> x + 1 / 2"
    by linarith
  have hi: "x + 1 / 2 < of_int \<lfloor>x + 1 / 2\<rfloor> + 1"
    by linarith
  from lo hi show ?thesis
    unfolding round_half_up_def by linarith
qed

lemma normalizeWeight_finite:
  "normalizeWeight (Some (Num x)) = Num (of_int (max 1 (round_half_up x)))"
  by (simp add: normalizeWeight_def max_def)

text \<open>
  C7. Whatever the input (missing, \<^verbatim>\<open>NaN\<close>, infinite, negative, zero, fractional),
  \<^verbatim>\<open>normalizeWeight\<close> returns an integer that is at least 1. A missing input gives 1, a
  non-finite input gives 1, and a finite input is rounded to a nearest integer (at most one
  half away from it) and then raised to 1 where it is smaller.
\<close>

theorem normalizeWeight_integer_ge_1:
  "(\<exists>n::int. 1 \<le> n \<and> normalizeWeight w = Num (of_int n))
   \<and> normalizeWeight None = Num 1
   \<and> normalizeWeight (Some NaN) = Num 1
   \<and> normalizeWeight (Some PosInf) = Num 1
   \<and> normalizeWeight (Some NegInf) = Num 1
   \<and> normalizeWeight (Some (Num x)) = Num (of_int (max 1 (round_half_up x)))
   \<and> \<bar>of_int (round_half_up x) - x\<bar> \<le> 1 / 2"
proof -
  have none: "normalizeWeight None = Num 1"
    by (simp add: normalizeWeight_def round_half_up_def)
  have nonfin: "normalizeWeight (Some NaN) = Num 1" "normalizeWeight (Some PosInf) = Num 1"
    "normalizeWeight (Some NegInf) = Num 1"
    by (simp_all add: normalizeWeight_def)
  have ex: "\<exists>n::int. 1 \<le> n \<and> normalizeWeight w = Num (of_int n)"
  proof (cases w)
    case None
    with none show ?thesis by (intro exI [of _ 1]) simp
  next
    case (Some v)
    show ?thesis
    proof (cases v)
      case (Num y)
      with Some show ?thesis
        by (intro exI [of _ "max 1 (round_half_up y)"]) (simp add: normalizeWeight_finite)
    qed (use Some nonfin in \<open>auto intro: exI [of _ 1]\<close>)
  qed
  from ex none nonfin normalizeWeight_finite [of x] round_half_up_nearest [of x]
  show ?thesis
    by blast
qed


section \<open>Item normalization\<close>

lemma trim_trim: "trim (trim s) = trim s"
proof -
  define ys where "ys = dropWhile isWhiteSpace s"
  define zs where "zs = rev (dropWhile isWhiteSpace (rev ys))"
  have t: "trim s = zs" by (simp add: trim_def ys_def zs_def)
  have ys: "ys = zs @ rev (takeWhile isWhiteSpace (rev ys))"
    unfolding zs_def
    by (metis rev_append rev_rev_ident takeWhile_dropWhile_id)
  have hd: "ys = [] \<or> \<not> isWhiteSpace (hd ys)"
    unfolding ys_def by (metis hd_dropWhile)
  have "zs = [] \<or> \<not> isWhiteSpace (hd zs)"
  proof (cases "zs = []")
    case False
    then have "hd ys = hd zs" "ys \<noteq> []" using ys by (metis hd_append2, metis append_is_Nil_conv)
    with hd show ?thesis by simp
  qed simp
  then have d: "dropWhile isWhiteSpace zs = zs"
    by (simp add: dropWhile_eq_self_iff)
  have "rev zs = dropWhile isWhiteSpace (rev ys)" by (simp add: zs_def)
  then have "dropWhile isWhiteSpace (rev zs) = rev zs"
    by (simp add: dropWhile_idem)
  with d have "trim zs = zs" by (simp add: trim_def)
  with t show ?thesis by simp
qed

lemma reduce_acc:
  "normalizeItems_reduce gen k acc raw =
     (acc @ fst (normalizeItems_reduce gen k [] raw), snd (normalizeItems_reduce gen k [] raw))"
proof (induction raw arbitrary: k acc)
  case Nil
  show ?case by simp
next
  case (Cons r raw)
  show ?case
  proof (cases "trim (raw_label r) = []")
    case True
    with Cons.IH [of k acc] show ?thesis by simp
  next
    case False
    show ?thesis
    proof (cases "raw_id r")
      case None
      with False Cons.IH [of "Suc k" "acc @ [_]"] Cons.IH [of "Suc k" "[_]"]
      show ?thesis by (simp add: Let_def)
    next
      case (Some x)
      with False Cons.IH [of k "acc @ [_]"] Cons.IH [of k "[_]"]
      show ?thesis by (simp add: Let_def)
    qed
  qed
qed

lemma normalizeItems_Nil: "normalizeItems gen k [] = ([], k)"
  by (simp add: normalizeItems_def)

lemma normalizeItems_drop:
  "trim (raw_label r) = [] \<Longrightarrow> normalizeItems gen k (r # raw) = normalizeItems gen k raw"
  by (simp add: normalizeItems_def)

lemma normalizeItems_keep_id:
  "trim (raw_label r) \<noteq> [] \<Longrightarrow> raw_id r = Some x \<Longrightarrow>
   normalizeItems gen k (r # raw) =
     (\<lparr>item_id = x, item_label = trim (raw_label r),
       item_weight = normalizeWeight (raw_weight r)\<rparr> # fst (normalizeItems gen k raw),
      snd (normalizeItems gen k raw))"
  unfolding normalizeItems_def
  by (subst normalizeItems_reduce.simps, subst reduce_acc) (simp add: Let_def)

lemma normalizeItems_keep_mint:
  "trim (raw_label r) \<noteq> [] \<Longrightarrow> raw_id r = None \<Longrightarrow>
   normalizeItems gen k (r # raw) =
     (\<lparr>item_id = gen k, item_label = trim (raw_label r),
       item_weight = normalizeWeight (raw_weight r)\<rparr> # fst (normalizeItems gen (Suc k) raw),
      snd (normalizeItems gen (Suc k) raw))"
  unfolding normalizeItems_def
  by (subst normalizeItems_reduce.simps, subst reduce_acc) (simp add: Let_def)

lemmas normalizeItems_unfold =
  normalizeItems_Nil normalizeItems_drop normalizeItems_keep_id normalizeItems_keep_mint

lemma normalizeItems_labels:
  "map item_label (fst (normalizeItems gen k raw)) =
   map (\<lambda>r. trim (raw_label r)) (filter (\<lambda>r. trim (raw_label r) \<noteq> []) raw)"
proof (induction raw arbitrary: k)
  case Nil
  show ?case by (simp add: normalizeItems_unfold)
next
  case (Cons r raw)
  show ?case
    by (cases "trim (raw_label r) = []"; cases "raw_id r") (simp_all add: normalizeItems_unfold Cons.IH)
qed

lemma normalizeItems_weights:
  "map item_weight (fst (normalizeItems gen k raw)) =
   map (\<lambda>r. normalizeWeight (raw_weight r)) (filter (\<lambda>r. trim (raw_label r) \<noteq> []) raw)"
proof (induction raw arbitrary: k)
  case Nil
  show ?case by (simp add: normalizeItems_unfold)
next
  case (Cons r raw)
  show ?case
    by (cases "trim (raw_label r) = []"; cases "raw_id r") (simp_all add: normalizeItems_unfold Cons.IH)
qed

lemma normalizeItems_count:
  "snd (normalizeItems gen k raw) =
   k + length (filter (\<lambda>r. raw_id r = None) (filter (\<lambda>r. trim (raw_label r) \<noteq> []) raw))"
proof (induction raw arbitrary: k)
  case Nil
  show ?case by (simp add: normalizeItems_unfold)
next
  case (Cons r raw)
  show ?case
    by (cases "trim (raw_label r) = []"; cases "raw_id r") (simp_all add: normalizeItems_unfold Cons.IH)
qed

lemma normalizeItems_ids:
  "i < length (filter (\<lambda>r. trim (raw_label r) \<noteq> []) raw) \<Longrightarrow>
   item_id (fst (normalizeItems gen k raw) ! i) =
     (case raw_id (filter (\<lambda>r. trim (raw_label r) \<noteq> []) raw ! i) of
        Some x \<Rightarrow> x
      | None \<Rightarrow> gen (k + length (filter (\<lambda>r. raw_id r = None)
                   (take i (filter (\<lambda>r. trim (raw_label r) \<noteq> []) raw)))))"
proof (induction raw arbitrary: k i)
  case Nil
  then show ?case by simp
next
  case (Cons r raw)
  show ?case
  proof (cases "trim (raw_label r) = []")
    case True
    with Cons.prems Cons.IH [of i k] show ?thesis by (simp add: normalizeItems_unfold cong: option.case_cong)
  next
    case keep: False
    show ?thesis
    proof (cases i)
      case 0
      with keep show ?thesis by (cases "raw_id r") (simp_all add: normalizeItems_unfold)
    next
      case (Suc j)
      with Cons.prems keep have j: "j < length (filter (\<lambda>r. trim (raw_label r) \<noteq> []) raw)"
        by simp
      show ?thesis
      proof (cases "raw_id r")
        case None
        with keep Suc Cons.IH [OF j, of "Suc k"] show ?thesis by (simp add: normalizeItems_unfold cong: option.case_cong)
      next
        case (Some x)
        with keep Suc Cons.IH [OF j, of k] show ?thesis by (simp add: normalizeItems_unfold cong: option.case_cong)
      qed
    qed
  qed
qed

lemma filter_take_mono:
  "i \<le> j \<Longrightarrow> length (filter P (take i xs)) \<le> length (filter P (take j xs))"
proof -
  assume "i \<le> j"
  then have "take j xs = take i xs @ take (j - i) (drop i xs)"
    by (metis le_add_diff_inverse take_add)
  then show ?thesis by simp
qed

lemma filter_take_Suc:
  "i < length xs \<Longrightarrow> P (xs ! i) \<Longrightarrow>
   length (filter P (take (Suc i) xs)) = Suc (length (filter P (take i xs)))"
  by (simp add: take_Suc_conv_app_nth)

lemma normalizeItems_length:
  "length (fst (normalizeItems gen k raw)) = length (filter (\<lambda>r. trim (raw_label r) \<noteq> []) raw)"
  using arg_cong [OF normalizeItems_labels [of gen k raw], of length] by simp

lemma normalizeItems_trimmed:
  assumes "item \<in> set (fst (normalizeItems gen k raw))"
  shows "trim (item_label item) \<noteq> [] \<and> trim (item_label item) = item_label item"
proof -
  from assms have "item_label item \<in> set (map item_label (fst (normalizeItems gen k raw)))"
    by simp
  then have "item_label item \<in> (\<lambda>r. trim (raw_label r)) ` {r \<in> set raw. trim (raw_label r) \<noteq> []}"
    by (simp add: normalizeItems_labels)
  then obtain r :: RawItemInput
    where "trim (raw_label r) \<noteq> []" "item_label item = trim (raw_label r)"
    by blast
  then show ?thesis by (simp add: trim_trim)
qed

lemma minted_increasing:
  assumes "i < j" and "j < length xs" and "P (xs ! i)"
  shows "length (filter P (take i xs)) < length (filter P (take j xs))"
proof -
  from assms have "length (filter P (take (Suc i) xs)) = Suc (length (filter P (take i xs)))"
    by (intro filter_take_Suc) simp_all
  moreover from assms have "length (filter P (take (Suc i) xs)) \<le> length (filter P (take j xs))"
    by (intro filter_take_mono) simp
  ultimately show ?thesis by simp
qed

text \<open>
  C8. \<^verbatim>\<open>normalizeItems\<close> keeps exactly the entries whose label is not empty after
  trimming, in their order (\<open>kept\<close>). The labels of the output are the trimmed labels,
  so that none is empty after trimming; the weights are those of \<^verbatim>\<open>normalizeWeight\<close>;
  a supplied id is kept, and an entry without one receives the result of a call of
  \<^verbatim>\<open>nanoid()\<close> of its own (the calls are numbered from \<open>k\<close>, one per entry lacking an
  id, in order).
\<close>

theorem normalizeItems_filters_trims_in_order:
  "let kept = filter (\<lambda>r. trim (raw_label r) \<noteq> []) raw;
       out = fst (normalizeItems gen k raw);
       minted = (\<lambda>i. length (filter (\<lambda>r. raw_id r = None) (take i kept)))
   in length out = length kept
      \<and> map item_label out = map (\<lambda>r. trim (raw_label r)) kept
      \<and> (\<forall>item\<in>set out. trim (item_label item) \<noteq> [] \<and> trim (item_label item) = item_label item)
      \<and> map item_weight out = map (\<lambda>r. normalizeWeight (raw_weight r)) kept
      \<and> (\<forall>i<length kept.
            item_id (out ! i) =
              (case raw_id (kept ! i) of Some x \<Rightarrow> x | None \<Rightarrow> gen (k + minted i)))
      \<and> (\<forall>i j. i < j \<and> j < length kept \<and> raw_id (kept ! i) = None \<longrightarrow> minted i < minted j)
      \<and> snd (normalizeItems gen k raw) = k + minted (length kept)"
  unfolding Let_def
proof (intro conjI ballI allI impI)
  show "length (fst (normalizeItems gen k raw)) = length (filter (\<lambda>r. trim (raw_label r) \<noteq> []) raw)"
    by (rule normalizeItems_length)
  show "map item_label (fst (normalizeItems gen k raw)) =
      map (\<lambda>r. trim (raw_label r)) (filter (\<lambda>r. trim (raw_label r) \<noteq> []) raw)"
    by (rule normalizeItems_labels)
  show "map item_weight (fst (normalizeItems gen k raw)) =
      map (\<lambda>r. normalizeWeight (raw_weight r)) (filter (\<lambda>r. trim (raw_label r) \<noteq> []) raw)"
    by (rule normalizeItems_weights)
  show "snd (normalizeItems gen k raw) =
      k + length (filter (\<lambda>r. raw_id r = None)
            (take (length (filter (\<lambda>r. trim (raw_label r) \<noteq> []) raw))
               (filter (\<lambda>r. trim (raw_label r) \<noteq> []) raw)))"
    by (simp add: normalizeItems_count)
next
  fix item assume "item \<in> set (fst (normalizeItems gen k raw))"
  then show "trim (item_label item) \<noteq> []" "trim (item_label item) = item_label item"
    using normalizeItems_trimmed by blast+
next
  fix i assume "i < length (filter (\<lambda>r. trim (raw_label r) \<noteq> []) raw)"
  then show "item_id (fst (normalizeItems gen k raw) ! i) =
      (case raw_id (filter (\<lambda>r. trim (raw_label r) \<noteq> []) raw ! i) of
         Some x \<Rightarrow> x
       | None \<Rightarrow> gen (k + length (filter (\<lambda>r. raw_id r = None)
                    (take i (filter (\<lambda>r. trim (raw_label r) \<noteq> []) raw)))))"
    by (rule normalizeItems_ids)
next
  fix i j
  assume "i < j \<and> j < length (filter (\<lambda>r. trim (raw_label r) \<noteq> []) raw)
      \<and> raw_id (filter (\<lambda>r. trim (raw_label r) \<noteq> []) raw ! i) = None"
  then show "length (filter (\<lambda>r. raw_id r = None) (take i (filter (\<lambda>r. trim (raw_label r) \<noteq> []) raw)))
      < length (filter (\<lambda>r. raw_id r = None) (take j (filter (\<lambda>r. trim (raw_label r) \<noteq> []) raw)))"
    by (intro minted_increasing) simp_all
qed

lemma ex_raw_eval:
  "normalizeItems ex_gen 0 ex_raw =
     ([\<lparr>item_id = lit ''id0'', item_label = lit ''Red'', item_weight = Num 1\<rparr>,
       \<lparr>item_id = lit ''k9'', item_label = lit ''Blue'', item_weight = Num 3\<rparr>,
       \<lparr>item_id = lit ''id1'', item_label = lit ''Green'', item_weight = Num 1\<rparr>], 2)"
  by (simp add: normalizeItems_def ex_raw_def ex_gen_def lit_def trim_def isWhiteSpace_def
      normalizeWeight_def round_half_up_def)

theorem normalizeItems_filters_trims_in_order_witness:
  "length (filter (\<lambda>r. trim (raw_label r) \<noteq> []) ex_raw) = 3
   \<and> map item_label (fst (normalizeItems ex_gen 0 ex_raw)) = [lit ''Red'', lit ''Blue'', lit ''Green'']
   \<and> map item_id (fst (normalizeItems ex_gen 0 ex_raw)) = [ex_gen 0, lit ''k9'', ex_gen 1]
   \<and> map item_weight (fst (normalizeItems ex_gen 0 ex_raw)) = [Num 1, Num 3, Num 1]
   \<and> snd (normalizeItems ex_gen 0 ex_raw) = 2"
  using normalizeItems_filters_trims_in_order [of ex_raw ex_gen 0]
  by (simp add: ex_raw_eval) (simp add: ex_raw_def ex_gen_def lit_def trim_def isWhiteSpace_def)

section \<open>Rounding to doubles\<close>

lemma round_half_even_of_int: "round_half_even (of_int n) = n"
  by (simp add: round_half_even_def)

lemma binade_of_int:
  assumes "n \<noteq> 0"
  shows "binade (of_int n) = bitlen \<bar>n\<bar> - 1"
proof -
  from assms have pos: "0 < \<bar>n\<bar>" by simp
  from bitlen_bounds [OF pos] have lo: "2 ^ nat (bitlen \<bar>n\<bar> - 1) \<le> \<bar>n\<bar>" by simp
  from pos have "1 \<le> bitlen \<bar>n\<bar>"
    using bitlen_eq_zero_iff [of "\<bar>n\<bar>"] bitlen_nonneg [of "\<bar>n\<bar>"] by linarith
  then have "pow2 (bitlen \<bar>n\<bar> - 1) = of_int (2 ^ nat (bitlen \<bar>n\<bar> - 1))"
    by (simp add: pow2_def)
  also from lo have "\<dots> \<le> of_int \<bar>n\<bar>"
    by (simp only: of_int_le_iff)
  finally have "pow2 (bitlen \<bar>n\<bar> - 1) \<le> \<bar>rat_of_int n\<bar>" by simp
  moreover have "quotient_of \<bar>rat_of_int n\<bar> = (\<bar>n\<bar>, 1)"
    by (metis of_int_abs quotient_of_rat_of_int)
  moreover have "bitlen 1 = 1" by (simp add: bitlen_alt_def)
  ultimately show ?thesis by (simp add: binade_def)
qed

lemma bitlen_le_54:
  assumes "0 < m" and "m \<le> 9007199254740992"
  shows "bitlen m \<le> 54"
proof (rule ccontr)
  assume "\<not> bitlen m \<le> 54"
  then have "55 \<le> bitlen m" by simp
  then have "(54::nat) \<le> nat (bitlen m - 1)" by simp
  then have "(2::int) ^ 54 \<le> 2 ^ nat (bitlen m - 1)"
    by (intro power_increasing) simp_all
  also from bitlen_bounds [OF assms(1)] have "\<dots> \<le> m" by simp
  finally show False using assms(2) by simp
qed

text \<open>
  An integer of magnitude at most \<open>2^53\<close> is a double, so a sum with such a value is
  exact.
\<close>

lemma toDouble_of_int:
  assumes "\<bar>n\<bar> \<le> 9007199254740992"
  shows "toDouble (of_int n) = Num (of_int n)"
proof (cases "n = 0")
  case True
  then show ?thesis by (simp add: toDouble_def)
next
  case False
  then have pos: "0 < \<bar>n\<bar>" by simp
  define b where "b = bitlen \<bar>n\<bar>"
  from pos have b1: "1 \<le> b"
    unfolding b_def using bitlen_eq_zero_iff [of "\<bar>n\<bar>"] bitlen_nonneg [of "\<bar>n\<bar>"] by linarith
  from bitlen_le_54 [OF pos assms] have b54: "b \<le> 54" by (simp add: b_def)
  from binade_of_int [OF False] have e: "binade (of_int n) = b - 1" by (simp add: b_def)
  from b1 have m: "max (b - 1) (- 1022) = b - 1" by simp
  have "\<exists>k. rat_of_int n / pow2 (b - 1 - 52) = of_int k
      \<and> of_int k * pow2 (b - 1 - 52) = rat_of_int n"
  proof (cases "b \<le> 53")
    case True
    then have "pow2 (b - 1 - 52) = 1 / 2 ^ nat (53 - b)"
      by (cases "b = 53") (simp_all add: pow2_def)
    then have "rat_of_int n / pow2 (b - 1 - 52) = of_int (n * 2 ^ nat (53 - b))
        \<and> of_int (n * 2 ^ nat (53 - b)) * pow2 (b - 1 - 52) = rat_of_int n"
      by simp
    then show ?thesis by blast
  next
    case False
    with b54 have b: "b = 54" by simp
    from bitlen_bounds [OF pos] b have "2 ^ 53 \<le> \<bar>n\<bar>" by (simp add: b_def)
    with assms have "\<bar>n\<bar> = 9007199254740992" by simp
    then have "n = 9007199254740992 \<or> n = - 9007199254740992" by linarith
    then have "rat_of_int n / pow2 (b - 1 - 52) = of_int (n div 2)
        \<and> of_int (n div 2) * pow2 (b - 1 - 52) = rat_of_int n"
      using b by (auto simp: pow2_def)
    then show ?thesis by blast
  qed
  then obtain k where k: "rat_of_int n / pow2 (b - 1 - 52) = of_int k"
    "of_int k * pow2 (b - 1 - 52) = rat_of_int n" by blast
  have small: "\<not> pow2 1024 \<le> \<bar>rat_of_int n\<bar>"
  proof -
    have "\<bar>rat_of_int n\<bar> \<le> 9007199254740992"
      using assms by (metis of_int_abs of_int_le_iff of_int_numeral)
    also have "\<dots> < pow2 1024"
    proof -
      have "(2::rat) ^ 53 < 2 ^ 1024" by (intro power_strict_increasing) simp_all
      then show ?thesis by (simp add: pow2_def)
    qed
    finally show ?thesis by simp
  qed
  from False e m k small show ?thesis
    by (simp add: toDouble_def Let_def round_half_even_of_int)
qed

lemma toDouble_numeral:
  "numeral k \<le> (9007199254740992::int) \<Longrightarrow> toDouble (numeral k) = Num (numeral k)"
  using toDouble_of_int [of "numeral k"] by simp

lemma toDouble_neg_numeral:
  "numeral k \<le> (9007199254740992::int) \<Longrightarrow> toDouble (- numeral k) = Num (- numeral k)"
  using toDouble_of_int [of "- numeral k"] by simp

lemma toDouble_1: "toDouble 1 = Num 1"
  using toDouble_of_int [of 1] by simp

lemmas toDouble_exact = toDouble_numeral toDouble_neg_numeral toDouble_1

lemma js_add_int:
  "\<bar>a + b\<bar> \<le> 9007199254740992 \<Longrightarrow>
   js_add (Num (of_int a)) (Num (of_int b)) = Num (of_int (a + b))"
  using toDouble_of_int [of "a + b"] by simp

lemma bitlen_eqI:
  assumes "2 ^ k \<le> x" and "x < 2 ^ Suc k"
  shows "bitlen x = int k + 1"
proof -
  have pos: "0 < x" using assms(1) by (smt (verit) zero_less_power)
  define b where "b = nat (bitlen x - 1)"
  from pos have b1: "1 \<le> bitlen x"
    using bitlen_eq_zero_iff [of x] bitlen_nonneg [of x] by linarith
  then have bb: "bitlen x = int b + 1" "nat (bitlen x) = Suc b"
    unfolding b_def by linarith+
  from bitlen_bounds [OF pos] have lo: "2 ^ b \<le> x" and hi: "x < 2 ^ Suc b"
    unfolding bb(2) b_def [symmetric] by blast+
  from lo assms(2) have "(2::int) ^ b < 2 ^ Suc k" by linarith
  then have "b < Suc k" by (simp only: power_strict_increasing_iff)
  moreover from assms(1) hi have "(2::int) ^ k < 2 ^ Suc b" by linarith
  then have "k < Suc b" by (simp only: power_strict_increasing_iff)
  ultimately have "b = k" by simp
  with bb show ?thesis by simp
qed

lemma floor_rat_numeral: "\<lfloor>numeral a / numeral b :: rat\<rfloor> = numeral a div numeral b"
  by (metis floor_divide_of_int_eq of_int_numeral)

lemma floor_rat_neg_numeral:
  "\<lfloor>- (numeral a / numeral b :: rat)\<rfloor> = - numeral a div numeral b"
  by (metis floor_divide_of_int_eq of_int_numeral of_int_minus minus_divide_left)

text \<open>
  \<open>- 2^53 - 1\<close> lies halfway between the doubles \<open>- 2^53 - 2\<close> and \<open>- 2^53\<close>; the tie
  goes to the one whose significand is even.
\<close>

lemma toDouble_ties_to_even:
  "toDouble (- 9007199254740993) = Num (- 9007199254740992)"
proof -
  have "bitlen 9007199254740993 = int 53 + 1"
    by (rule bitlen_eqI) simp_all
  with binade_of_int [of "- 9007199254740993"]
  have e: "binade (- 9007199254740993) = 53" by simp
  have p: "pow2 1 = 2" "\<not> pow2 1024 \<le> 9007199254740992"
  proof -
    show "pow2 1 = 2" by (simp add: pow2_def)
    have "(2::rat) ^ 53 < 2 ^ 1024" by (intro power_strict_increasing) simp_all
    then show "\<not> pow2 1024 \<le> 9007199254740992" by (simp add: pow2_def)
  qed
  have r: "round_half_even (- (9007199254740993 / 2)) = - 4503599627370496"
    by (simp add: round_half_even_def floor_rat_neg_numeral Let_def)
  from e p r show ?thesis
    by (simp add: toDouble_def Let_def)
qed

section \<open>Weighted selection\<close>

lemma integer_weight:
  "isInteger (item_weight item) \<Longrightarrow> item_weight item = Num (of_int (int_weight item))"
  by (cases "item_weight item") (auto simp: int_weight_def)

lemma cumulative_0: "cumulative its 0 = 0"
  by (simp add: cumulative_def)

lemma cumulative_Cons_Suc: "cumulative (item # its) (Suc n) = int_weight item + cumulative its n"
  by (simp add: cumulative_def)

lemma cumulative_length: "cumulative its (length its) = sum_list (map int_weight its)"
  by (simp add: cumulative_def)

text \<open>
  Where every cumulative weight, taken from the running value \<open>r\<close>, is an integer of
  magnitude at most \<open>2^53\<close>, the additions of the \<^verbatim>\<open>reduce\<close> and of the loop are exact.
\<close>

lemma bounded_tail:
  assumes "\<forall>n\<le>length (item # its). \<bar>r + cumulative (item # its) n\<bar> \<le> 9007199254740992"
  shows "\<bar>r + int_weight item\<bar> \<le> 9007199254740992"
    and "\<forall>n\<le>length its. \<bar>(r + int_weight item) + cumulative its n\<bar> \<le> 9007199254740992"
proof -
  from assms have "\<bar>r + cumulative (item # its) (Suc 0)\<bar> \<le> 9007199254740992"
    by (metis Suc_leI length_Cons zero_less_Suc)
  then show "\<bar>r + int_weight item\<bar> \<le> 9007199254740992"
    by (simp add: cumulative_Cons_Suc cumulative_0)
  show "\<forall>n\<le>length its. \<bar>(r + int_weight item) + cumulative its n\<bar> \<le> 9007199254740992"
  proof (intro allI impI)
    fix n assume "n \<le> length its"
    then have "Suc n \<le> length (item # its)" by simp
    with assms have "\<bar>r + cumulative (item # its) (Suc n)\<bar> \<le> 9007199254740992" by blast
    then show "\<bar>(r + int_weight item) + cumulative its n\<bar> \<le> 9007199254740992"
      by (simp add: cumulative_Cons_Suc add.assoc)
  qed
qed

lemma foldl_integer_weights:
  assumes "\<forall>item\<in>set its. isInteger (item_weight item)"
    and "\<forall>n\<le>length its. \<bar>r + cumulative its n\<bar> \<le> 9007199254740992"
  shows "foldl (\<lambda>sum item. js_add sum (item_weight item)) (Num (of_int r)) its =
           Num (of_int (r + sum_list (map int_weight its)))"
  using assms
proof (induction its arbitrary: r)
  case Nil
  show ?case by simp
next
  case (Cons item its)
  from Cons.prems(1) have w: "item_weight item = Num (of_int (int_weight item))"
    by (simp add: integer_weight)
  from Cons.prems(1) have ints: "\<forall>item\<in>set its. isInteger (item_weight item)" by simp
  from bounded_tail [OF Cons.prems(2)]
  have b: "\<bar>r + int_weight item\<bar> \<le> 9007199254740992"
    and bs: "\<forall>n\<le>length its. \<bar>(r + int_weight item) + cumulative its n\<bar> \<le> 9007199254740992"
    by blast+
  from Cons.IH [OF ints bs] w js_add_int [OF b] show ?case
    by (simp add: add.assoc)
qed

lemma totalWeight_integer:
  assumes "\<forall>item\<in>set its. isInteger (item_weight item)"
    and "\<forall>n\<le>length its. \<bar>cumulative its n\<bar> \<le> 9007199254740992"
  shows "totalWeight its = Num (of_int (sum_list (map int_weight its)))"
  using foldl_integer_weights [of its 0] assms by (simp add: totalWeight_def)

lemma scan_integer:
  assumes "\<forall>item\<in>set its. isInteger (item_weight item)"
    and "\<forall>n\<le>length its. \<bar>r + cumulative its n\<bar> \<le> 9007199254740992"
    and "r \<le> t" and "t < r + sum_list (map int_weight its)"
  shows "\<exists>j<length its. scan (Num (of_int t)) (Num (of_int r)) its = Some (its ! j)
           \<and> r + cumulative its j \<le> t \<and> t < r + cumulative its (Suc j)
           \<and> (\<forall>m<j. r + cumulative its (Suc m) \<le> t)"
  using assms
proof (induction its arbitrary: r)
  case Nil
  then show ?case by simp
next
  case (Cons item its)
  from Cons.prems(1) have w: "item_weight item = Num (of_int (int_weight item))"
    by (simp add: integer_weight)
  from bounded_tail [OF Cons.prems(2)]
  have b: "\<bar>r + int_weight item\<bar> \<le> 9007199254740992"
    and bs: "\<forall>n\<le>length its. \<bar>(r + int_weight item) + cumulative its n\<bar> \<le> 9007199254740992"
    by blast+
  note add = js_add_int [OF b]
  show ?case
  proof (cases "t < r + int_weight item")
    case True
    with w add Cons.prems(3)
    have "scan (Num (of_int t)) (Num (of_int r)) (item # its) = Some ((item # its) ! 0)
           \<and> r + cumulative (item # its) 0 \<le> t \<and> t < r + cumulative (item # its) (Suc 0)
           \<and> (\<forall>m<0::nat. r + cumulative (item # its) (Suc m) \<le> t)"
      by (simp add: cumulative_0 cumulative_Cons_Suc)
    then show ?thesis by blast
  next
    case False
    then have le: "r + int_weight item \<le> t" by simp
    from Cons.prems have ints: "\<forall>item\<in>set its. isInteger (item_weight item)"
      and lt: "t < (r + int_weight item) + sum_list (map int_weight its)"
      by simp_all
    from Cons.IH [OF ints bs le lt] obtain j where j: "j < length its"
      and sel: "scan (Num (of_int t)) (Num (of_int (r + int_weight item))) its = Some (its ! j)"
      and lo: "r + int_weight item + cumulative its j \<le> t"
      and hi: "t < r + int_weight item + cumulative its (Suc j)"
      and first: "\<forall>m<j. r + int_weight item + cumulative its (Suc m) \<le> t"
      by blast
    have s: "scan (Num (of_int t)) (Num (of_int r)) (item # its) = Some ((item # its) ! Suc j)"
      using w add False sel by simp
    have f: "\<forall>m<Suc j. r + cumulative (item # its) (Suc m) \<le> t"
    proof (intro allI impI)
      fix m assume "m < Suc j"
      show "r + cumulative (item # its) (Suc m) \<le> t"
      proof (cases m)
        case 0
        with le show ?thesis by (simp add: cumulative_Cons_Suc cumulative_0)
      next
        case (Suc m')
        with \<open>m < Suc j\<close> first show ?thesis by (simp add: cumulative_Cons_Suc add.assoc)
      qed
    qed
    from j s lo hi f show ?thesis
      by (intro exI [of _ "Suc j"]) (simp add: cumulative_Cons_Suc add.assoc)
  qed
qed

lemma cumulative_mono:
  assumes "\<forall>item\<in>set its. 0 \<le> int_weight item" and "m \<le> n"
  shows "cumulative its m \<le> cumulative its n"
proof -
  from \<open>m \<le> n\<close> have "take n its = take m its @ take (n - m) (drop m its)"
    by (metis le_add_diff_inverse take_add)
  moreover have "0 \<le> sum_list (map int_weight (take (n - m) (drop m its)))"
    using assms(1) by (intro sum_list_nonneg) (auto dest: in_set_takeD in_set_dropD)
  ultimately show ?thesis by (simp add: cumulative_def)
qed

lemma readDataFile_Stored:
  "DATA_FILE w = Stored d \<Longrightarrow> readDataFile w = (Inr d, w\<lparr>dataFileInitialization := True\<rparr>)"
  by (simp add: readDataFile_def ensureDataFile_def)

lemma writeDataFile_initialized:
  "writeDataFile e d (w\<lparr>dataFileInitialization := True\<rparr>) =
     (case disk e of
        Written \<Rightarrow> (Inr (), w\<lparr>dataFileInitialization := True, DATA_FILE := Stored d\<rparr>)
      | Refused \<Rightarrow> (Inl EACCES, w\<lparr>dataFileInitialization := True\<rparr>)
      | Torn \<Rightarrow> (Inl ENOSPC, w\<lparr>dataFileInitialization := True, DATA_FILE := Unparseable\<rparr>))"
  by (simp add: writeDataFile_def ensureDataFile_def split: write_result.splits)

lemma totalWeight_Nil: "totalWeight [] = Num 0"
  by (simp add: totalWeight_def)

lemma scan_integer_total:
  assumes ints: "\<forall>item\<in>set its. isInteger (item_weight item)"
    and bound: "\<forall>n\<le>length its. \<bar>cumulative its n\<bar> \<le> 9007199254740992"
    and tw: "totalWeight its = Num (of_int tw)"
    and t: "0 \<le> t" "t < tw"
  shows "\<exists>j<length its. scan (Num (of_int t)) (Num 0) its = Some (its ! j)
           \<and> cumulative its j \<le> t \<and> t < cumulative its (Suc j)
           \<and> (\<forall>m<j. cumulative its (Suc m) \<le> t)"
proof -
  from tw totalWeight_integer [OF ints bound] have "tw = sum_list (map int_weight its)"
    by simp
  with t have lt: "t < 0 + sum_list (map int_weight its)" by simp
  from bound have b0: "\<forall>n\<le>length its. \<bar>0 + cumulative its n\<bar> \<le> 9007199254740992" by simp
  from t(1) have "(0::int) \<le> t" .
  from scan_integer [OF ints b0 this lt] show ?thesis by simp
qed

text \<open>
  The loop adds the weights in the order and from the start value of the \<^verbatim>\<open>reduce\<close>
  that computes the total, so after the last item \<open>running\<close> is the total itself.
  Whatever the weights and however the additions round, a target below the total is below
  \<open>running\<close> at the last item at the latest.
\<close>

lemma scan_selects_below_total:
  assumes "its \<noteq> []"
    and "js_lt target (foldl (\<lambda>sum item. js_add sum (item_weight item)) running its)"
  shows "\<exists>item\<in>set its. scan target running its = Some item"
  using assms
proof (induction its arbitrary: running)
  case Nil
  then show ?case by simp
next
  case (Cons item rest)
  show ?case
  proof (cases "js_lt target (js_add running (item_weight item))")
    case True
    then show ?thesis by simp
  next
    case False
    with Cons.prems(2) have "rest \<noteq> []" by (cases rest) simp_all
    from Cons.IH [OF this, of "js_add running (item_weight item)"] Cons.prems(2) False
    show ?thesis by (simp add: Let_def)
  qed
qed

text \<open>
  C9. On a list whose weights are integers with total weight \<open>tw > 0\<close>, and for a
  target \<open>0 \<le> t < tw\<close>, the loop of \<^verbatim>\<open>recordSpin\<close> leaves with an item selected:
  \<open>selected\<close> is never undefined, so the fallback to the last item is not taken and the
  chosen item is the selected one.
\<close>

theorem scan_always_selects:
  assumes "\<forall>item\<in>set its. isInteger (item_weight item)"
    and "totalWeight its = Num (of_int tw)"
    and "0 < tw" and "0 \<le> t" and "t < tw"
  shows "\<exists>item\<in>set its. scan (Num (of_int t)) (Num 0) its = Some item \<and> chosen its t = item"
proof -
  from assms(2,3) have ne: "its \<noteq> []"
    by (auto simp: totalWeight_Nil)
  from assms(2,5) have "js_lt (Num (of_int t))
      (foldl (\<lambda>sum item. js_add sum (item_weight item)) (Num 0) its)"
    by (simp add: totalWeight_def)
  from scan_selects_below_total [OF ne this] obtain item
    where "item \<in> set its" "scan (Num (of_int t)) (Num 0) its = Some item"
    by blast
  then show ?thesis
    by (intro bexI [of _ item]) (simp_all add: chosen_def)
qed

theorem scan_always_selects_witness:
  "list_all (\<lambda>item. isInteger (item_weight item)) ex_items
   \<and> totalWeight ex_items = Num (of_int 4)
   \<and> scan (Num (of_int 3)) (Num 0) ex_items = Some (ex_items ! 1)
   \<and> chosen ex_items 3 = ex_items ! 1"
  using scan_always_selects [of ex_items 4 3]
  by (simp add: ex_items_def totalWeight_def chosen_def toDouble_exact)

lemma bucket_unique:
  assumes nonneg: "\<forall>item\<in>set its. 0 \<le> int_weight item"
    and j: "t < cumulative its (Suc j)" "\<forall>m<j. cumulative its (Suc m) \<le> t"
    and m: "cumulative its m \<le> t" "t < cumulative its (Suc m)"
  shows "m = j"
proof (rule ccontr)
  assume "m \<noteq> j"
  then consider "m < j" | "j < m" by linarith
  then show False
  proof cases
    case 1
    with j(2) m(2) show False by fastforce
  next
    case 2
    then have "Suc j \<le> m" by simp
    from cumulative_mono [OF nonneg this] j(1) m(1) show False by simp
  qed
qed

text \<open>
  C1, as amended. On a list whose weights are integers and whose cumulative weights all
  have magnitude at most \<open>2^53\<close> (so that the code's additions of doubles are exact), with
  total weight \<open>tw > 0\<close> and for a drawn value \<open>0 \<le> t < tw\<close>, the item chosen is the one
  at the first index \<open>j\<close> whose cumulative weight exceeds \<open>t\<close>: the sum of the weights
  before \<open>j\<close> is at most \<open>t\<close>, the sum up to and including \<open>j\<close> is greater than \<open>t\<close>,
  and at no earlier index does the cumulative weight exceed \<open>t\<close> (list order decides,
  nothing is drawn again). When no weight is negative, \<open>j\<close> is the only index whose bucket
  holds \<open>t\<close>. When the draw of \<^verbatim>\<open>recordSpin\<close> returns \<open>t\<close> and the write succeeds, the
  spin it returns carries the id and the label of that item.
\<close>

theorem recordSpin_selects_first_exceeding:
  assumes "DATA_FILE w = Stored data"
    and "findIndex (\<lambda>list. list_id list = i) (lists data) = Some index"
    and "list_items (lists data ! index) = its"
    and "\<forall>item\<in>set its. isInteger (item_weight item)"
    and "\<forall>n\<le>length its. \<bar>cumulative its n\<bar> \<le> 9007199254740992"
    and "totalWeight its = Num (of_int tw)"
    and "0 < tw" and "0 \<le> t" and "t < tw"
  shows "\<exists>j<length its.
           chosen its t = its ! j
           \<and> cumulative its j \<le> t \<and> t < cumulative its (Suc j)
           \<and> (\<forall>m<j. cumulative its (Suc m) \<le> t)
           \<and> ((\<forall>item\<in>set its. 0 \<le> int_weight item) \<longrightarrow>
                (\<forall>m. cumulative its m \<le> t \<and> t < cumulative its (Suc m) \<longrightarrow> m = j))
           \<and> (randomInt (entropy e) (totalWeight its) = Inr t \<and> disk e = Written \<longrightarrow>
                fst (recordSpin e i w) =
                  Inr (Some \<lparr>spin_id = nanoid e 0, spin_itemId = item_id (its ! j),
                             spin_label = item_label (its ! j), spin_timestamp = now e\<rparr>))"
proof -
  from scan_integer_total [OF assms(4,5,6,8,9)] obtain j
    where j: "j < length its"
      and sel: "scan (Num (of_int t)) (Num 0) its = Some (its ! j)"
      and lo: "cumulative its j \<le> t" and hi: "t < cumulative its (Suc j)"
      and first: "\<forall>m<j. cumulative its (Suc m) \<le> t"
    by blast
  from sel have c: "chosen its t = its ! j"
    by (simp add: chosen_def)
  have uniq: "(\<forall>item\<in>set its. 0 \<le> int_weight item) \<longrightarrow>
      (\<forall>m. cumulative its m \<le> t \<and> t < cumulative its (Suc m) \<longrightarrow> m = j)"
    using bucket_unique [OF _ hi first] by blast
  from j have ne: "its \<noteq> []" by auto
  from assms(6,7) have pos: "\<not> js_le (totalWeight its) (Num 0)" by simp
  have spin: "randomInt (entropy e) (totalWeight its) = Inr t \<and> disk e = Written \<longrightarrow>
      fst (recordSpin e i w) =
        Inr (Some \<lparr>spin_id = nanoid e 0, spin_itemId = item_id (its ! j),
                   spin_label = item_label (its ! j), spin_timestamp = now e\<rparr>)"
    using assms(2,3) ne pos c
    by (simp add: recordSpin_def readDataFile_Stored [OF assms(1)] writeDataFile_initialized
        Let_def)
  from j c lo hi first uniq spin show ?thesis by blast
qed

theorem recordSpin_selects_first_exceeding_witness:
  "DATA_FILE ex_world = Stored ex_data
   \<and> findIndex (\<lambda>list. list_id list = lit ''L1'') (lists ex_data) = Some 1
   \<and> list_items (lists ex_data ! 1) = ex_items
   \<and> list_all (\<lambda>item. isInteger (item_weight item)) ex_items
   \<and> list_all (\<lambda>n. \<bar>cumulative ex_items n\<bar> \<le> 9007199254740992) [0, 1, 2]
   \<and> totalWeight ex_items = Num (of_int 4)
   \<and> randomInt (entropy ex_env) (totalWeight ex_items) = Inr 1
   \<and> disk ex_env = Written
   \<and> chosen ex_items 1 = ex_items ! 1
   \<and> cumulative ex_items 1 = 1 \<and> cumulative ex_items 2 = 4
   \<and> fst (recordSpin ex_env (lit ''L1'') ex_world) =
       Inr (Some \<lparr>spin_id = ex_gen 0, spin_itemId = lit ''b'', spin_label = lit ''Blue'',
                  spin_timestamp = lit ''2024-05-02T08:30:00.000Z''\<rparr>)"
  using recordSpin_selects_first_exceeding [of ex_world ex_data "lit ''L1''" 1 ex_items 4 1 ex_env]
  by (simp add: ex_world_def ex_data_def ex_items_def ex_env_def lit_def totalWeight_def
      chosen_def cumulative_def int_weight_def randomInt_def RAND_MAX_def recordSpin_def
      readDataFile_def ensureDataFile_def writeDataFile_def MAX_SPIN_HISTORY_def Let_def
      toDouble_exact)

text \<open>
  The claim C1 as it was stated, for all integer weights, fails twice. With the weights
  \<open>2, -1, 2\<close> and the draw 1, the buckets of the indices 0 and 2 both hold the draw, so
  no index is the only one; the first is chosen. With the weights
  \<open>-2^53, -1, 2^53 + 2, 5\<close> and the draw 1, the second addition of the code rounds
  \<open>-2^53 - 1\<close> to \<open>-2^53\<close>: the code's total is 7 where the sum of the weights is 6, and
  the code chooses the item at index 2, whose cumulative weight is 1 and does not exceed
  the draw; \<^verbatim>\<open>recordSpin\<close> returns a spin of that item.
\<close>

theorem recordSpin_selection_counterexample:
  "isInteger (item_weight (ex_signed_items ! 0)) \<and> isInteger (item_weight (ex_signed_items ! 1))
   \<and> isInteger (item_weight (ex_signed_items ! 2))
   \<and> totalWeight ex_signed_items = Num 3
   \<and> chosen ex_signed_items 1 = ex_signed_items ! 0
   \<and> cumulative ex_signed_items 0 \<le> 1 \<and> 1 < cumulative ex_signed_items 1
   \<and> cumulative ex_signed_items 2 \<le> 1 \<and> 1 < cumulative ex_signed_items 3
   \<and> isInteger (item_weight (ex_large_items ! 0)) \<and> isInteger (item_weight (ex_large_items ! 1))
   \<and> isInteger (item_weight (ex_large_items ! 2)) \<and> isInteger (item_weight (ex_large_items ! 3))
   \<and> cumulative ex_large_items 4 = 6
   \<and> totalWeight ex_large_items = Num 7
   \<and> chosen ex_large_items 1 = ex_large_items ! 2
   \<and> cumulative ex_large_items 3 = 1
   \<and> cumulative ex_large_items 3 \<le> 1 \<and> 1 < cumulative ex_large_items 4
   \<and> randomInt (entropy ex_env) (totalWeight ex_large_items) = Inr 1
   \<and> fst (recordSpin ex_env (lit ''L3'') ex_large_world) =
       Inr (Some \<lparr>spin_id = ex_gen 0, spin_itemId = lit ''c'', spin_label = lit ''Green'',
                  spin_timestamp = lit ''2024-05-02T08:30:00.000Z''\<rparr>)"
proof -
  have signed: "totalWeight ex_signed_items = Num 3"
    "chosen ex_signed_items 1 = ex_signed_items ! 0"
    by (simp_all add: ex_signed_items_def totalWeight_def chosen_def toDouble_exact)
  have large: "totalWeight ex_large_items = Num 7"
    "chosen ex_large_items 1 = ex_large_items ! 2"
    by (simp_all add: ex_large_items_def totalWeight_def chosen_def toDouble_exact
        toDouble_ties_to_even)
  have ints: "isInteger (item_weight (ex_signed_items ! 0))"
    "isInteger (item_weight (ex_signed_items ! 1))"
    "isInteger (item_weight (ex_signed_items ! 2))"
    "isInteger (item_weight (ex_large_items ! 0))" "isInteger (item_weight (ex_large_items ! 1))"
    "isInteger (item_weight (ex_large_items ! 2))" "isInteger (item_weight (ex_large_items ! 3))"
    by (simp_all add: ex_signed_items_def ex_large_items_def)
  have sums: "cumulative ex_signed_items 0 = 0" "cumulative ex_signed_items 1 = 2"
    "cumulative ex_signed_items 2 = 1" "cumulative ex_signed_items 3 = 3"
    "cumulative ex_large_items 3 = 1" "cumulative ex_large_items 4 = 6"
    by (simp_all add: ex_signed_items_def ex_large_items_def cumulative_def int_weight_def
        numeral_3_eq_3 numeral_2_eq_2 eval_nat_numeral floor_minus)
  have spin: "randomInt (entropy ex_env) (totalWeight ex_large_items) = Inr 1"
    "fst (recordSpin ex_env (lit ''L3'') ex_large_world) =
       Inr (Some \<lparr>spin_id = ex_gen 0, spin_itemId = lit ''c'', spin_label = lit ''Green'',
                  spin_timestamp = lit ''2024-05-02T08:30:00.000Z''\<rparr>)"
    unfolding large
    by (simp_all add: recordSpin_def readDataFile_def ensureDataFile_def writeDataFile_def
        ex_large_world_def ex_env_def randomInt_def RAND_MAX_def large Let_def)
      (simp_all add: ex_large_items_def lit_def)
  from signed large ints sums spin show ?thesis by simp
qed

section \<open>Failure and the persisted document\<close>

lemma findIndex_Some:
  "findIndex P xs = Some n \<Longrightarrow> n < length xs \<and> P (xs ! n) \<and> (\<forall>m<n. \<not> P (xs ! m))"
proof (induction xs arbitrary: n)
  case Nil
  then show ?case by simp
next
  case (Cons x xs)
  show ?case
  proof (cases "P x")
    case True
    with Cons.prems show ?thesis by simp
  next
    case False
    with Cons.prems obtain k where k: "findIndex P xs = Some k" "n = Suc k"
      by auto
    from Cons.IH [OF k(1)] False k(2) show ?thesis
      by (auto simp: less_Suc_eq_0_disj)
  qed
qed

lemma findIndex_None: "findIndex P xs = None \<longleftrightarrow> (\<forall>x\<in>set xs. \<not> P x)"
  by (induction xs) auto

lemma ensureDataFile_present:
  "DATA_FILE w \<noteq> Absent \<Longrightarrow> DATA_FILE (ensureDataFile w) = DATA_FILE w"
  by (cases "DATA_FILE w") (simp_all add: ensureDataFile_def)


text \<open>
  A write that does not end in \<open>ENOSPC\<close> has either stored the document or left the file as
  it was.
\<close>

lemma writeDataFile_failed:
  assumes "DATA_FILE w \<noteq> Absent" and "writeDataFile e d w = (Inl err, w')" and "err \<noteq> ENOSPC"
  shows "DATA_FILE w' = DATA_FILE w"
  using assms ensureDataFile_present [OF assms(1)]
  by (auto simp: writeDataFile_def Let_def split: write_result.splits)

lemma writeDataFile_error:
  "writeDataFile e d w = (Inl err, w') \<Longrightarrow> err = EACCES \<or> err = ENOSPC"
  by (auto simp: writeDataFile_def Let_def split: write_result.splits)








section \<open>Updating a list, spinning, and the second store variant\<close>

text \<open>
  C6. On an existing list, \<^verbatim>\<open>updateList\<close> returns the list with \<open>name\<close>,
  \<open>description\<close> and \<open>items\<close> re-normalized where the payload supplies them and as they
  were where it omits them, with \<open>updatedAt\<close> set to the current instant, and with
  \<open>id\<close>, \<open>createdAt\<close> and \<open>spins\<close> as they were. The document written differs from
  the one read at that list only. That list is returned and written when the write
  succeeds; when the write fails the call throws the write's error instead.
\<close>

theorem updateList_changes_supplied_fields_only:
  assumes "DATA_FILE w = Stored data"
    and "findIndex (\<lambda>list. list_id list = i) (lists data) = Some index"
  shows "\<exists>updated.
           (disk e = Written \<longrightarrow>
              updateList e i payload w =
                (Inr (Some updated),
                 w\<lparr>dataFileInitialization := True,
                   DATA_FILE := Stored (data\<lparr>lists := (lists data)[index := updated]\<rparr>)\<rparr>))
           \<and> (disk e = Refused \<longrightarrow>
                updateList e i payload w = (Inl EACCES, w\<lparr>dataFileInitialization := True\<rparr>))
           \<and> (disk e = Torn \<longrightarrow>
                updateList e i payload w =
                  (Inl ENOSPC, w\<lparr>dataFileInitialization := True, DATA_FILE := Unparseable\<rparr>))
           \<and> list_name updated =
               (case update_name payload of
                  None \<Rightarrow> list_name (lists data ! index)
                | Some n \<Rightarrow> sanitizeName (Some n))
           \<and> list_description updated =
               (case update_description payload of
                  None \<Rightarrow> list_description (lists data ! index)
                | Some d \<Rightarrow> sanitizeDescription (Some d))
           \<and> list_items updated =
               (case update_items payload of
                  None \<Rightarrow> list_items (lists data ! index)
                | Some its \<Rightarrow> fst (normalizeItems (nanoid e) 0 its))
           \<and> list_updatedAt updated = now e
           \<and> list_id updated = list_id (lists data ! index)
           \<and> list_createdAt updated = list_createdAt (lists data ! index)
           \<and> list_spins updated = list_spins (lists data ! index)
           \<and> length ((lists data)[index := updated]) = length (lists data)
           \<and> (\<forall>n<length (lists data). n \<noteq> index \<longrightarrow>
                 (lists data)[index := updated] ! n = lists data ! n)"
  using assms(2)
  by (intro exI [of _ "(lists data ! index)
        \<lparr>list_name :=
           (case update_name payload of
              Some n \<Rightarrow> sanitizeName (Some n)
            | None \<Rightarrow> list_name (lists data ! index)),
         list_description :=
           (case update_description payload of
              Some d \<Rightarrow> sanitizeDescription (Some d)
            | None \<Rightarrow> list_description (lists data ! index)),
         list_items :=
           (case update_items payload of
              Some its \<Rightarrow> fst (normalizeItems (nanoid e) 0 its)
            | None \<Rightarrow> list_items (lists data ! index)),
         list_updatedAt := now e\<rparr>"])
    (simp add: updateList_def readDataFile_Stored [OF assms(1)] writeDataFile_initialized
      Let_def)

theorem updateList_changes_supplied_fields_only_witness:
  "DATA_FILE ex_world = Stored ex_data
   \<and> findIndex (\<lambda>list. list_id list = lit ''L1'') (lists ex_data) = Some 1
   \<and> disk ex_env = Written
   \<and> fst (updateList ex_env (lit ''L1'') ex_update ex_world) =
       Inr (Some \<lparr>list_id = lit ''L1'', list_name = lit ''New Name'',
                  list_description = Some (lit ''two''),
                  list_items = ex_items, list_spins = [],
                  list_createdAt = lit ''2024-05-01T10:00:00.000Z'',
                  list_updatedAt = lit ''2024-05-02T08:30:00.000Z''\<rparr>)"
  using updateList_changes_supplied_fields_only [of ex_world ex_data "lit ''L1''" 1 ex_env ex_update]
  by (simp add: updateList_def readDataFile_def ensureDataFile_def writeDataFile_def
      ex_world_def ex_data_def ex_env_def ex_update_def lit_def Let_def sanitizeName_def
      trim_def isWhiteSpace_def)

lemma randomInt_errors: "randomInt r mx \<noteq> Inl NO_ITEMS"
  by (cases mx) (simp_all add: randomInt_def)

lemma recordSpin_outcome:
  assumes "DATA_FILE w = Stored data"
  shows "fst (recordSpin e i w) = Inr None \<longleftrightarrow> (\<forall>list\<in>set (lists data). list_id list \<noteq> i)"
    and "fst (recordSpin e i w) = Inl NO_ITEMS \<longleftrightarrow>
      (\<exists>index. findIndex (\<lambda>list. list_id list = i) (lists data) = Some index
         \<and> (list_items (lists data ! index) = []
            \<or> js_le (totalWeight (list_items (lists data ! index))) (Num 0)))"
    and "(\<exists>spin. fst (recordSpin e i w) = Inr (Some spin)) \<longleftrightarrow>
      (\<exists>index. findIndex (\<lambda>list. list_id list = i) (lists data) = Some index
         \<and> list_items (lists data ! index) \<noteq> []
         \<and> \<not> js_le (totalWeight (list_items (lists data ! index))) (Num 0)
         \<and> \<not> isl (randomInt (entropy e) (totalWeight (list_items (lists data ! index))))
         \<and> disk e = Written)"
proof -
  show "fst (recordSpin e i w) = Inr None \<longleftrightarrow> (\<forall>list\<in>set (lists data). list_id list \<noteq> i)"
    using findIndex_None [of "\<lambda>list. list_id list = i" "lists data"]
    by (auto simp: recordSpin_def readDataFile_Stored [OF assms] writeDataFile_initialized
        Let_def split: option.splits sum.splits write_result.splits)
  show "fst (recordSpin e i w) = Inl NO_ITEMS \<longleftrightarrow>
      (\<exists>index. findIndex (\<lambda>list. list_id list = i) (lists data) = Some index
         \<and> (list_items (lists data ! index) = []
            \<or> js_le (totalWeight (list_items (lists data ! index))) (Num 0)))"
    by (auto simp: recordSpin_def readDataFile_Stored [OF assms] writeDataFile_initialized
        Let_def randomInt_errors split: option.splits sum.splits write_result.splits)
  show "(\<exists>spin. fst (recordSpin e i w) = Inr (Some spin)) \<longleftrightarrow>
      (\<exists>index. findIndex (\<lambda>list. list_id list = i) (lists data) = Some index
         \<and> list_items (lists data ! index) \<noteq> []
         \<and> \<not> js_le (totalWeight (list_items (lists data ! index))) (Num 0)
         \<and> \<not> isl (randomInt (entropy e) (totalWeight (list_items (lists data ! index))))
         \<and> disk e = Written)"
    by (auto simp: recordSpin_def readDataFile_Stored [OF assms] writeDataFile_initialized
        Let_def split: option.splits sum.splits write_result.splits)
qed

lemma round_half_up_of_int: "round_half_up (of_int n) = n"
  unfolding round_half_up_def by linarith

lemma normalizeWeight_of_int: "1 \<le> n \<Longrightarrow> normalizeWeight (Some (Num (of_int n))) = Num (of_int n)"
  by (simp add: normalizeWeight_finite round_half_up_of_int)

text \<open>
  C5. A list with a single item of weight \<open>10 ^ 15\<close>, a weight that
  \<^verbatim>\<open>normalizeWeight\<close> accepts as it is: the list is found, it has an item, and its total
  weight is positive, yet \<^verbatim>\<open>recordSpin\<close> returns no spin. The draw throws, because the
  total weight is beyond the range of \<^verbatim>\<open>crypto.randomInt\<close>, and the document stays as it
  was. (\<open>recordSpin_outcome\<close> above gives the cases in which the sentinel, \<^verbatim>\<open>NO_ITEMS\<close>
  and a spin are returned.) The only addition made is that of 0 and \<open>10 ^ 15\<close>, which is
  exact in doubles.
\<close>

theorem recordSpin_heavy_list_throws:
  "normalizeWeight (Some (Num 1000000000000000)) = Num 1000000000000000
   \<and> recordSpin ex_env (lit ''L2'') ex_heavy_world = (Inl ERR_OUT_OF_RANGE, ex_heavy_world)"
proof
  show "normalizeWeight (Some (Num 1000000000000000)) = Num 1000000000000000"
    using normalizeWeight_of_int [of 1000000000000000] by simp
  show "recordSpin ex_env (lit ''L2'') ex_heavy_world = (Inl ERR_OUT_OF_RANGE, ex_heavy_world)"
    by (simp add: recordSpin_def readDataFile_def ensureDataFile_def ex_heavy_world_def lit_def
        totalWeight_def randomInt_def RAND_MAX_def Let_def toDouble_exact)
qed

lemma inline_weight_agrees:
  "w \<noteq> Some NaN \<Longrightarrow> w \<noteq> Some PosInf \<Longrightarrow>
   Math_max (Num 1) (Math_round (case w of None \<Rightarrow> Num 1 | Some x \<Rightarrow> x)) = normalizeWeight w"
proof (cases w)
  case None
  then show ?thesis by (simp add: normalizeWeight_def)
next
  case (Some v)
  assume "w \<noteq> Some NaN" "w \<noteq> Some PosInf"
  with Some show ?thesis by (cases v) (simp_all add: normalizeWeight_def)
qed

text \<open>
  C10. The weight of the primary store and the inline weight of the second variant at
  \<open>+\<infinity>\<close> and at \<^verbatim>\<open>NaN\<close>: the primary store returns 1, the second variant stores the
  non-finite value itself. (By \<open>inline_weight_agrees\<close> the two agree on every other
  input.)
\<close>

theorem normalizeItems_v2_keeps_nonfinite_weight:
  "normalizeWeight (Some PosInf) = Num 1
   \<and> map item_weight
        (normalizeItems_v2 ex_gen 0
           [\<lparr>raw_id = None, raw_label = lit ''a'', raw_weight = Some PosInf\<rparr>]) = [PosInf]
   \<and> normalizeWeight (Some NaN) = Num 1
   \<and> map item_weight
        (normalizeItems_v2 ex_gen 0
           [\<lparr>raw_id = None, raw_label = lit ''a'', raw_weight = Some NaN\<rparr>]) = [NaN]"
  by (simp add: normalizeWeight_def normalizeItems_v2_def lit_def trim_def isWhiteSpace_def)

section \<open>Spin history\<close>

lemma unparseable_perform:
  assumes "DATA_FILE w = Unparseable"
  shows "DATA_FILE (perform c w) = Unparseable"
proof -
  from assms have "readDataFile w = (Inl DATA_CORRUPT, w\<lparr>dataFileInitialization := True\<rparr>)"
    by (simp add: readDataFile_def ensureDataFile_def)
  with assms show ?thesis
    by (cases c)
      (simp_all add: getLists_def getList_def createList_def updateList_def deleteList_def
        recordSpin_def Let_def)
qed

lemma aligned_read:
  assumes "aligned w h" and "DATA_FILE w \<noteq> Unparseable"
  obtains d where "readDataFile w = (Inr d, w\<lparr>dataFileInitialization := True, DATA_FILE := Stored d\<rparr>)"
    and "list_all2 (\<lambda>list s. list_spins list = take MAX_SPIN_HISTORY s) (lists d) h"
proof (cases "DATA_FILE w")
  case Absent
  with assms have "\<not> dataFileInitialization w" "h = []" by (simp_all add: aligned_def)
  with Absent have "readDataFile w =
      (Inr \<lparr>lists = []\<rparr>, w\<lparr>dataFileInitialization := True, DATA_FILE := Stored \<lparr>lists = []\<rparr>\<rparr>)"
    by (simp add: readDataFile_def ensureDataFile_def)
  with \<open>h = []\<close> that [of "\<lparr>lists = []\<rparr>"] show ?thesis by simp
next
  case Unparseable
  with assms show ?thesis by simp
next
  case (Stored d)
  with assms have "list_all2 (\<lambda>list s. list_spins list = take MAX_SPIN_HISTORY s) (lists d) h"
    by (simp add: aligned_def)
  moreover from Stored have "readDataFile w =
      (Inr d, w\<lparr>dataFileInitialization := True, DATA_FILE := Stored d\<rparr>)"
    by (simp add: readDataFile_def ensureDataFile_def)
  ultimately show ?thesis using that by blast
qed

lemma writeDataFile_after_read:
  "writeDataFile e d' (w\<lparr>dataFileInitialization := True, DATA_FILE := Stored d\<rparr>) =
     (case disk e of
        Written \<Rightarrow> (Inr (), w\<lparr>dataFileInitialization := True, DATA_FILE := Stored d'\<rparr>)
      | Refused \<Rightarrow> (Inl EACCES, w\<lparr>dataFileInitialization := True, DATA_FILE := Stored d\<rparr>)
      | Torn \<Rightarrow> (Inl ENOSPC, w\<lparr>dataFileInitialization := True, DATA_FILE := Unparseable\<rparr>))"
  by (simp add: writeDataFile_def ensureDataFile_def split: write_result.splits)

lemma list_all2_filter_zip:
  "list_all2 P xs ys \<Longrightarrow>
   list_all2 P (filter Q xs) (map snd (filter (\<lambda>(x, y). Q x) (zip xs ys)))"
  by (induction rule: list_all2_induct) simp_all

lemma aligned_perform:
  assumes "aligned w h"
  shows "aligned (perform c w) (chronicle c w h)"
proof (cases "DATA_FILE w = Unparseable")
  case True
  from unparseable_perform [OF this] show ?thesis by (simp add: aligned_def)
next
  case False
  with assms obtain d
    where rd: "readDataFile w = (Inr d, w\<lparr>dataFileInitialization := True, DATA_FILE := Stored d\<rparr>)"
      and al: "list_all2 (\<lambda>list s. list_spins list = take MAX_SPIN_HISTORY s) (lists d) h"
    by (rule aligned_read)
  show ?thesis
  proof (cases c)
    case GetLists
    with rd al show ?thesis by (simp add: getLists_def aligned_def)
  next
    case (GetList i)
    with rd al show ?thesis by (simp add: getList_def aligned_def)
  next
    case (CreateList e payload)
    with rd al show ?thesis
      by (simp add: createList_def aligned_def writeDataFile_after_read Let_def
          list_all2_appendI split: write_result.splits)
  next
    case (UpdateList e i payload)
    show ?thesis
    proof (cases "findIndex (\<lambda>list. list_id list = i) (lists d)")
      case None
      with UpdateList rd al show ?thesis by (simp add: updateList_def aligned_def)
    next
      case (Some index)
      from findIndex_Some [OF Some] have "index < length (lists d)" by simp
      from list_all2_nthD [OF al this]
      have "list_spins (lists d ! index) = take MAX_SPIN_HISTORY (h ! index)" .
      with al have "list_all2 (\<lambda>list s. list_spins list = take MAX_SPIN_HISTORY s)
          ((lists d)[index := (lists d ! index)
              \<lparr>list_name := nm, list_description := ds, list_items := its, list_updatedAt := u\<rparr>])
          (h[index := h ! index])" for nm ds its u
        by (intro list_all2_update_cong) simp_all
      with UpdateList Some rd al show ?thesis
        by (simp add: updateList_def aligned_def writeDataFile_after_read Let_def
            split: write_result.splits)
    qed
  next
    case (DeleteList e i)
    from al have "list_all2 (\<lambda>list s. list_spins list = take MAX_SPIN_HISTORY s)
        (filter (\<lambda>list. list_id list \<noteq> i) (lists d))
        (map snd (filter (\<lambda>(list, s). list_id list \<noteq> i) (zip (lists d) h)))"
      by (rule list_all2_filter_zip)
    moreover have "length (filter (\<lambda>list. list_id list \<noteq> i) (lists d)) = length (lists d)
        \<Longrightarrow> filter (\<lambda>list. list_id list \<noteq> i) (lists d) = lists d"
      by (metis filter_True length_filter_less linorder_neq_iff)
    ultimately show ?thesis using DeleteList rd al
      by (auto simp: deleteList_def aligned_def writeDataFile_after_read Let_def
          split: write_result.splits)
  next
    case (RecordSpin e i)
    show ?thesis
    proof (cases "findIndex (\<lambda>list. list_id list = i) (lists d)")
      case None
      with RecordSpin rd al show ?thesis by (simp add: recordSpin_def aligned_def)
    next
      case (Some index)
      from findIndex_Some [OF Some] have "index < length (lists d)" by simp
      from list_all2_nthD [OF al this]
      have "list_spins (lists d ! index) = take MAX_SPIN_HISTORY (h ! index)" .
      with al have "list_all2 (\<lambda>list s. list_spins list = take MAX_SPIN_HISTORY s)
          ((lists d)[index := (lists d ! index)
              \<lparr>list_spins := take MAX_SPIN_HISTORY (spin # list_spins (lists d ! index)),
                list_updatedAt := u\<rparr>])
          (h[index := spin # h ! index])" for spin u
        by (intro list_all2_update_cong) (simp_all add: MAX_SPIN_HISTORY_def take_Cons')
      with RecordSpin Some rd al show ?thesis
        by (simp add: recordSpin_def aligned_def writeDataFile_after_read Let_def
            split: sum.splits write_result.splits)
    qed
  qed
qed

lemma aligned_run: "aligned w h \<Longrightarrow> run cs (w, h) = (w', h') \<Longrightarrow> aligned w' h'"
  by (induction cs arbitrary: w h) (auto dest: aligned_perform)

lemma aligned_initial: "aligned initial []"
  by (simp add: aligned_def initial_def)


lemma recordSpin_prepends:
  assumes "DATA_FILE w = Stored d" and "recordSpin e i w = (Inr (Some spin), w')"
  shows "\<exists>index. findIndex (\<lambda>list. list_id list = i) (lists d) = Some index
           \<and> DATA_FILE w' = Stored (d\<lparr>lists := (lists d)[index := (lists d ! index)
                 \<lparr>list_spins := take MAX_SPIN_HISTORY (spin # list_spins (lists d ! index)),
                   list_updatedAt := now e\<rparr>]\<rparr>)"
  using assms(2)
  by (auto simp: recordSpin_def readDataFile_Stored [OF assms(1)] writeDataFile_initialized
      Let_def split: option.splits if_splits sum.splits write_result.splits)

lemma createList_empty_spins:
  assumes "DATA_FILE w = Stored d" and "disk e = Written"
  shows "\<exists>list. fst (createList e payload w) = Inr list \<and> list_spins list = []
           \<and> DATA_FILE (snd (createList e payload w)) = Stored (d\<lparr>lists := lists d @ [list]\<rparr>)"
  by (simp add: createList_def readDataFile_Stored [OF assms(1)] writeDataFile_initialized
      assms(2) Let_def)

lemma map_update_same: "f y = f (xs ! i) \<Longrightarrow> map f (xs[i := y]) = map f xs"
  by (induction xs arbitrary: i) (simp_all split: nat.split)

lemma updateList_keeps_spins:
  assumes "DATA_FILE w = Stored d" and "disk e \<noteq> Torn"
  shows "\<exists>d'. DATA_FILE (snd (updateList e i payload w)) = Stored d'
           \<and> map list_spins (lists d') = map list_spins (lists d)"
proof (cases "findIndex (\<lambda>list. list_id list = i) (lists d)")
  case None
  with assms(1) show ?thesis
    by (simp add: updateList_def readDataFile_Stored [OF assms(1)])
next
  case (Some index)
  have "map list_spins ((lists d)[index := (lists d ! index)
      \<lparr>list_name := nm, list_description := ds, list_items := its, list_updatedAt := u\<rparr>])
      = map list_spins (lists d)" for nm ds its u
    by (simp add: map_update_same)
  with Some assms show ?thesis
    by (simp add: updateList_def readDataFile_Stored [OF assms(1)] writeDataFile_initialized
        Let_def split: write_result.splits)
qed

lemma deleteList_removes:
  assumes "DATA_FILE w = Stored d" and "disk e = Written"
  shows "DATA_FILE (snd (deleteList e i w)) =
           Stored (d\<lparr>lists := filter (\<lambda>list. list_id list \<noteq> i) (lists d)\<rparr>)"
proof -
  have "length (filter (\<lambda>list. list_id list \<noteq> i) (lists d)) = length (lists d)
      \<Longrightarrow> filter (\<lambda>list. list_id list \<noteq> i) (lists d) = lists d"
    by (metis filter_True length_filter_less linorder_neq_iff)
  then show ?thesis
    using assms
    by (auto simp: deleteList_def readDataFile_Stored [OF assms(1)] writeDataFile_initialized
        Let_def)
qed

text \<open>
  C4. A run starts with no data file and performs any calls of the store, in any
  environments, with writes that succeed or fail. \<open>h\<close> records beside it, for each
  list of the document, every spin recorded on that list, newest first and without bound.
  In every document so reached each
  list's \<open>spins\<close> has at most 20 entries and is the first 20 entries of that record: the 20
  most recent spins, newest first. A successful \<^verbatim>\<open>recordSpin\<close> puts the new spin in
  front and keeps the first 20, dropping from the old end; \<^verbatim>\<open>createList\<close> appends a list
  with no spins, \<^verbatim>\<open>updateList\<close> leaves the spins of every list as they were, and
  \<^verbatim>\<open>deleteList\<close> only removes lists (each where its write succeeds; \<^verbatim>\<open>updateList\<close>
  also where its write is refused and the file stays as it was).
\<close>

theorem spins_bounded_newest_first:
  "MAX_SPIN_HISTORY = 20
   \<and> (run cs (initial, []) = (w, h) \<and> DATA_FILE w = Stored d \<longrightarrow>
        length h = length (lists d)
        \<and> (\<forall>n<length (lists d).
              length (list_spins (lists d ! n)) \<le> MAX_SPIN_HISTORY
              \<and> list_spins (lists d ! n) = take MAX_SPIN_HISTORY (h ! n)))
   \<and> (DATA_FILE w0 = Stored d0 \<and> recordSpin e i w0 = (Inr (Some spin), w1) \<longrightarrow>
        (\<exists>index. findIndex (\<lambda>list. list_id list = i) (lists d0) = Some index
           \<and> DATA_FILE w1 = Stored (d0\<lparr>lists := (lists d0)[index := (lists d0 ! index)
                 \<lparr>list_spins := take MAX_SPIN_HISTORY (spin # list_spins (lists d0 ! index)),
                   list_updatedAt := now e\<rparr>]\<rparr>)))
   \<and> (DATA_FILE w0 = Stored d0 \<and> disk e = Written \<longrightarrow>
        (\<exists>list. fst (createList e payload w0) = Inr list \<and> list_spins list = []
           \<and> DATA_FILE (snd (createList e payload w0)) = Stored (d0\<lparr>lists := lists d0 @ [list]\<rparr>)))
   \<and> (DATA_FILE w0 = Stored d0 \<and> disk e \<noteq> Torn \<longrightarrow>
        (\<exists>d1. DATA_FILE (snd (updateList e i update w0)) = Stored d1
           \<and> map list_spins (lists d1) = map list_spins (lists d0)))
   \<and> (DATA_FILE w0 = Stored d0 \<and> disk e = Written \<longrightarrow>
        DATA_FILE (snd (deleteList e i w0)) =
          Stored (d0\<lparr>lists := filter (\<lambda>list. list_id list \<noteq> i) (lists d0)\<rparr>))"
proof -
  have inv: "length h = length (lists d)
      \<and> (\<forall>n<length (lists d).
            length (list_spins (lists d ! n)) \<le> MAX_SPIN_HISTORY
            \<and> list_spins (lists d ! n) = take MAX_SPIN_HISTORY (h ! n))"
    if r: "run cs (initial, []) = (w, h)" and s: "DATA_FILE w = Stored d"
  proof -
    from aligned_run [OF aligned_initial r] s
    have al: "list_all2 (\<lambda>list s. list_spins list = take MAX_SPIN_HISTORY s) (lists d) h"
      by (simp add: aligned_def)
    then have "length h = length (lists d)"
      by (simp add: list_all2_lengthD)
    moreover have "list_spins (lists d ! n) = take MAX_SPIN_HISTORY (h ! n)"
      if "n < length (lists d)" for n
      using list_all2_nthD [OF al that] .
    ultimately show ?thesis by simp
  qed
  from inv recordSpin_prepends [of w0 d0 e i spin w1] createList_empty_spins [of w0 d0 e payload]
    updateList_keeps_spins [of w0 d0 e i update] deleteList_removes [of w0 d0 e i]
  show ?thesis
    by (simp add: MAX_SPIN_HISTORY_def)
qed

lemma ex_calls_run:
  "run ex_calls (initial, []) =
     (\<lparr>dataFileInitialization = True, DATA_FILE = Stored ex_spun_data\<rparr>, [ex_history])"
  by (simp add: ex_calls_def ex_spun_data_def ex_history_def initial_def ex_env_def ex_create_def
      ex_env_spin1_def ex_env_spin2_def ex_gen_def
      lit_def createList_def recordSpin_def readDataFile_def ensureDataFile_def writeDataFile_def
      normalizeItems_def normalizeWeight_def round_half_up_def sanitizeName_def
      sanitizeDescription_def trim_def isWhiteSpace_def totalWeight_def randomInt_def
      RAND_MAX_def chosen_def MAX_SPIN_HISTORY_def Let_def floor_rat_numeral toDouble_exact)

theorem spins_bounded_newest_first_witness:
  "run ex_calls (initial, []) =
     (\<lparr>dataFileInitialization = True, DATA_FILE = Stored ex_spun_data\<rparr>, [ex_history])
   \<and> length [ex_history] = length (lists ex_spun_data)
   \<and> length (list_spins (lists ex_spun_data ! 0)) \<le> MAX_SPIN_HISTORY
   \<and> list_spins (lists ex_spun_data ! 0) = take MAX_SPIN_HISTORY ([ex_history] ! 0)
   \<and> DATA_FILE ex_world = Stored ex_data
   \<and> disk ex_env = Written
   \<and> map list_spins (lists ex_data) = [[], []]
   \<and> (\<exists>d1. DATA_FILE (snd (updateList ex_env (lit ''L1'') ex_update ex_world)) = Stored d1
          \<and> map list_spins (lists d1) = [[], []])"
proof -
  note t = spins_bounded_newest_first
    [of ex_calls "\<lparr>dataFileInitialization = True, DATA_FILE = Stored ex_spun_data\<rparr>"
        "[ex_history]" ex_spun_data ex_world ex_data ex_env "lit ''L1''" _ _ _ ex_update]
  have s: "DATA_FILE ex_world = Stored ex_data" "map list_spins (lists ex_data) = [[], []]"
    "disk ex_env = Written"
    by (simp_all add: ex_world_def ex_data_def ex_env_def)
  have n: "0 < length (lists ex_spun_data)"
    by (simp add: ex_spun_data_def)
  from t ex_calls_run s n show ?thesis
    by (simp del: One_nat_def)
qed

section \<open>The serialization queue runs one operation at a time, in order\<close>

lemma start_inj [simp]: "start j = start k \<longleftrightarrow> j = k"
  by (auto simp: start_def)

lemma swallow_inj [simp]: "swallow j = swallow k \<longleftrightarrow> j = k"
  by (auto simp: swallow_def)

lemma start_swallow [simp]: "start j \<noteq> swallow k" "swallow k \<noteq> start j"
  by (auto simp: start_def swallow_def)

lemma runSerial_eq:
  "chained s \<Longrightarrow>
   snd (runSerial s) =
     s\<lparr>promises := (promises s)(2 * submitted s + 1 := Pending, 2 * submitted s + 2 := Pending),
       allocated := 2 * submitted s + 3,
       reactions := reactions s @ [start (submitted s), swallow (submitted s)],
       operations := (operations s)(submitted s := Waiting),
       submitted := Suc (submitted s),
       queue := 2 * submitted s + 2\<rparr>"
  by (simp add: runSerial_def promise_then_def chained_def Let_def start_def swallow_def)

lemma chained_idle: "chained idle"
  by (simp add: chained_def idle_def)

lemma chained_submit:
  assumes "chained s"
  shows "chained (snd (runSerial s))"
proof -
  let ?n = "submitted s"
  from assms have old: "\<forall>r\<in>set (reactions s). \<exists>k<?n. r = start k \<or> r = swallow k"
    and links: "\<forall>k<?n. link s k" and d: "distinct (reactions s)"
    and p0: "promises s 0 = Fulfilled"
    and w: "\<forall>k\<ge>?n. operations s k = Waiting"
    by (simp_all add: chained_def)
  from old have fresh: "start ?n \<notin> set (reactions s)" "swallow ?n \<notin> set (reactions s)"
    by auto
  have "link (snd (runSerial s)) k" if "k < Suc ?n" for k
  proof (cases "k = ?n")
    case True
    with fresh show ?thesis
      by (simp add: runSerial_eq [OF assms] link_def)
  next
    case False
    with that have k: "k < ?n" by simp
    with links have "link s k" by simp
    with k show ?thesis
      by (simp add: runSerial_eq [OF assms] link_def split: phase.splits)
  qed
  moreover have "\<forall>r\<in>set (reactions s @ [start ?n, swallow ?n]).
      \<exists>k<Suc ?n. r = start k \<or> r = swallow k"
    using old by (auto simp: less_Suc_eq)
  ultimately show ?thesis
    using d fresh p0 w
    by (simp add: runSerial_eq [OF assms] chained_def)
qed


lemma queue_promise_fulfilled:
  assumes "chained s" and "k < submitted s" and "promises s (2 * k) \<noteq> Pending"
  shows "promises s (2 * k) = Fulfilled"
proof (cases k)
  case 0
  with assms(1) show ?thesis by (simp add: chained_def)
next
  case (Suc j)
  with assms(1,2) have "link s j" by (simp add: chained_def)
  with Suc assms(3) show ?thesis
    by (cases "promises s (2 * j + 2)") (simp_all add: link_def)
qed

lemma chained_react_start:
  assumes c: "chained s" and k: "k < submitted s" and r: "start k \<in> set (reactions s)"
    and settled: "promises s (2 * k) \<noteq> Pending"
  shows "chained (s\<lparr>reactions := remove1 (start k) (reactions s),
                    operations := (operations s)(k := Executing (2 * k + 1))\<rparr>)"
    (is "chained ?s'")
proof -
  from c have d: "distinct (reactions s)" and links: "\<forall>j<submitted s. link s j"
    and old: "\<forall>r\<in>set (reactions s). \<exists>k<submitted s. r = start k \<or> r = swallow k"
    by (simp_all add: chained_def)
  from queue_promise_fulfilled [OF c k settled] have f: "promises s (2 * k) = Fulfilled" .
  have "link ?s' j" if j: "j < submitted s" for j
  proof (cases "j = k")
    case True
    from links k have "link s k" by simp
    with r True f d show ?thesis
      by (auto simp: link_def split: phase.splits)
  next
    case False
    from links j have "link s j" by simp
    with False d show ?thesis
      by (auto simp: link_def split: phase.splits)
  qed
  with c d old k show ?thesis
    by (auto simp: chained_def)
qed

lemma chained_react_swallow:
  assumes c: "chained s" and k: "k < submitted s" and r: "swallow k \<in> set (reactions s)"
    and settled: "promises s (2 * k + 1) \<noteq> Pending"
  shows "chained (s\<lparr>reactions := remove1 (swallow k) (reactions s),
                    promises := (promises s)(2 * k + 2 := Fulfilled)\<rparr>)"
    (is "chained ?s'")
proof -
  from c have d: "distinct (reactions s)" and links: "\<forall>j<submitted s. link s j"
    and old: "\<forall>r\<in>set (reactions s). \<exists>k<submitted s. r = start k \<or> r = swallow k"
    by (simp_all add: chained_def)
  have "link ?s' j" if j: "j < submitted s" for j
  proof -
    from links j have lj: "link s j" by simp
    consider "j = k" | "j = Suc k" | "j \<noteq> k" "j \<noteq> Suc k" by blast
    then show ?thesis
    proof cases
      case 1
      with lj settled d show ?thesis
        by (simp add: link_def split: phase.splits)
    next
      case 2
      with lj d show ?thesis
        by (simp add: link_def split: phase.splits)
    next
      case 3
      then have "2 * j \<noteq> 2 * k + 2" "2 * j + 1 \<noteq> 2 * k + 2" "2 * j + 2 \<noteq> 2 * k + 2"
        by presburger+
      with lj 3 d show ?thesis
        by (simp add: link_def split: phase.splits)
    qed
  qed
  with c d old k show ?thesis
    by (auto simp: chained_def)
qed

lemma chained_settle:
  assumes c: "chained s" and k: "k < submitted s" and e: "operations s k = Executing p"
    and o: "outcome \<noteq> Pending"
  shows "chained (s\<lparr>operations := (operations s)(k := Finished outcome),
                    promises := (promises s)(p := outcome)\<rparr>)"
    (is "chained ?s'")
proof -
  from c have links: "\<forall>j<submitted s. link s j"
    by (simp_all add: chained_def)
  from links k e have p: "p = 2 * k + 1" and lk: "link s k"
    by (auto simp: link_def)
  have "link ?s' j" if j: "j < submitted s" for j
  proof (cases "j = k")
    case True
    with lk e o p show ?thesis
      by (auto simp: link_def split: phase.splits)
  next
    case False
    from links j have lj: "link s j" by simp
    from False have "2 * j \<noteq> 2 * k + 1" "2 * j + 1 \<noteq> 2 * k + 1" "2 * j + 2 \<noteq> 2 * k + 1"
      by presburger+
    with lj False p show ?thesis
      by (simp add: link_def split: phase.splits)
  qed
  with c p k show ?thesis
    by (auto simp: chained_def)
qed

lemma chained_fire:
  assumes c: "chained s" and f: "fire e s = Some s'"
  shows "chained s'"
proof (cases e)
  case Submit
  with f chained_submit [OF c] show ?thesis by simp
next
  case (React i)
  with f have i: "i < length (reactions s)"
    and settled: "promises s (source (reactions s ! i)) \<noteq> Pending"
    by (simp_all add: Let_def split: if_splits)
  from i have "reactions s ! i \<in> set (reactions s)" by simp
  with c obtain k where k: "k < submitted s"
    and r: "reactions s ! i = start k \<or> reactions s ! i = swallow k"
    unfolding chained_def by blast
  from r show ?thesis
  proof
    assume st: "reactions s ! i = start k"
    with i have "start k \<in> set (reactions s)" by (metis nth_mem)
    moreover from st settled have "promises s (2 * k) \<noteq> Pending" by (simp add: start_def)
    ultimately have "chained (s\<lparr>reactions := remove1 (start k) (reactions s),
        operations := (operations s)(k := Executing (2 * k + 1))\<rparr>)"
      by (rule chained_react_start [OF c k])
    moreover from f React i st settled
    have "s' = s\<lparr>reactions := remove1 (start k) (reactions s),
        operations := (operations s)(k := Executing (2 * k + 1))\<rparr>"
      by (auto simp: Let_def start_def)
    ultimately show ?thesis by simp
  next
    assume sw: "reactions s ! i = swallow k"
    with i have "swallow k \<in> set (reactions s)" by (metis nth_mem)
    moreover from sw settled have "promises s (2 * k + 1) \<noteq> Pending" by (simp add: swallow_def)
    ultimately have "chained (s\<lparr>reactions := remove1 (swallow k) (reactions s),
        promises := (promises s)(2 * k + 2 := Fulfilled)\<rparr>)"
      by (rule chained_react_swallow [OF c k])
    moreover from f React i sw settled
    have "s' = s\<lparr>reactions := remove1 (swallow k) (reactions s),
        promises := (promises s)(2 * k + 2 := Fulfilled)\<rparr>"
      by (auto simp: Let_def swallow_def)
    ultimately show ?thesis by simp
  qed
next
  case (Settle k outcome)
  with f obtain p where e: "operations s k = Executing p" and o: "outcome \<noteq> Pending"
    and s': "s' = s\<lparr>operations := (operations s)(k := Finished outcome),
        promises := (promises s)(p := outcome)\<rparr>"
    by (auto split: phase.splits if_splits)
  from c e have "k < submitted s"
    unfolding chained_def by (metis linorder_not_less phase.distinct(1))
  from chained_settle [OF c this e o] s' show ?thesis by simp
qed

lemma chained_execute: "chained s \<Longrightarrow> execute es s = Some s' \<Longrightarrow> chained s'"
proof (induction es arbitrary: s)
  case Nil
  then show ?case by simp
next
  case (Cons e es)
  from Cons.prems(2) obtain s1 where "fire e s = Some s1" "execute es s1 = Some s'"
    by (auto split: option.splits)
  with Cons.IH chained_fire [OF Cons.prems(1)] show ?case by blast
qed

lemma predecessor_finished:
  assumes c: "chained s" and k: "Suc j < submitted s" and w: "operations s (Suc j) \<noteq> Waiting"
  shows "\<exists>outcome. operations s j = Finished outcome"
proof -
  from c k have lk: "link s (Suc j)" and lj: "link s j"
    by (simp_all add: chained_def)
  from lk w have "promises s (2 * j + 2) = Fulfilled"
    by (cases "operations s (Suc j)") (simp_all add: link_def)
  with lj have "promises s (2 * j + 1) \<noteq> Pending"
    by (simp add: link_def)
  with lj show ?thesis
    by (cases "operations s j") (simp_all add: link_def)
qed

lemma earlier_finished:
  assumes c: "chained s"
  shows "k < submitted s \<Longrightarrow> operations s k \<noteq> Waiting \<Longrightarrow> j < k \<Longrightarrow>
         \<exists>outcome. operations s j = Finished outcome"
proof (induction k)
  case 0
  then show ?case by simp
next
  case (Suc k)
  from predecessor_finished [OF c Suc.prems(1,2)] obtain outcome
    where fin: "operations s k = Finished outcome" by blast
  show ?case
  proof (cases "j = k")
    case True
    with fin show ?thesis by simp
  next
    case False
    with Suc.prems(3) have "j < k" by simp
    moreover from fin have "operations s k \<noteq> Waiting" by simp
    moreover from Suc.prems(1) have "k < submitted s" by simp
    ultimately show ?thesis using Suc.IH by blast
  qed
qed


lemma swallow_enabled:
  assumes c: "chained s" and j: "j < submitted s"
    and settled: "promises s (2 * j + 1) \<noteq> Pending" and p: "promises s (2 * j + 2) = Pending"
  shows "\<exists>i s'. fire (React i) s = Some s' \<and> promises s' (2 * j + 2) = Fulfilled
           \<and> operations s' = operations s \<and> submitted s' = submitted s"
proof -
  from c j have "link s j" by (simp add: chained_def)
  with p have "swallow j \<in> set (reactions s)" by (simp add: link_def)
  then obtain i where i: "i < length (reactions s)" "reactions s ! i = swallow j"
    by (auto simp: in_set_conv_nth)
  with settled have "fire (React i) s =
      Some (s\<lparr>reactions := remove1 (swallow j) (reactions s),
               promises := (promises s)(2 * j + 2 := Fulfilled)\<rparr>)"
    by (auto simp: Let_def swallow_def)
  then show ?thesis by (intro exI [of _ i]) simp
qed

lemma start_enabled:
  assumes c: "chained s" and k: "k < submitted s"
    and w: "operations s k = Waiting" and f: "promises s (2 * k) = Fulfilled"
  shows "\<exists>i s'. fire (React i) s = Some s' \<and> operations s' k = Executing (2 * k + 1)"
proof -
  from c k have "link s k" by (simp add: chained_def)
  with w have "start k \<in> set (reactions s)" by (simp add: link_def)
  then obtain i where i: "i < length (reactions s)" "reactions s ! i = start k"
    by (auto simp: in_set_conv_nth)
  with f have "fire (React i) s =
      Some (s\<lparr>reactions := remove1 (start k) (reactions s),
               operations := (operations s)(k := Executing (2 * k + 1))\<rparr>)"
    by (auto simp: Let_def start_def)
  then show ?thesis by (intro exI [of _ i]) simp
qed

lemma next_can_start:
  assumes c: "chained s" and k: "k < submitted s" and w: "operations s k = Waiting"
    and fin: "\<forall>j<k. \<exists>outcome. operations s j = Finished outcome"
  shows "\<exists>rs s'. execute (map React rs) s = Some s' \<and> operations s' k = Executing (2 * k + 1)"
proof (cases "promises s (2 * k) = Fulfilled")
  case True
  from start_enabled [OF c k w True] obtain i s'
    where "fire (React i) s = Some s'" "operations s' k = Executing (2 * k + 1)"
    by blast
  then have "execute (map React [i]) s = Some s' \<and> operations s' k = Executing (2 * k + 1)"
    by simp
  then show ?thesis by blast
next
  case False
  have "k \<noteq> 0"
  proof
    assume "k = 0"
    with c False show False by (simp add: chained_def)
  qed
  then obtain j where kj: "k = Suc j" by (cases k) simp_all
  with c k have lj: "link s j" by (simp add: chained_def)
  from fin kj obtain outcome where "operations s j = Finished outcome" by auto
  with lj have settled: "promises s (2 * j + 1) \<noteq> Pending" by (simp add: link_def)
  from lj False kj have p: "promises s (2 * j + 2) = Pending"
    by (cases "promises s (2 * j + 2)") (simp_all add: link_def)
  from kj k have j: "j < submitted s" by simp
  from swallow_enabled [OF c j settled p] obtain i s1
    where f1: "fire (React i) s = Some s1" and q: "promises s1 (2 * j + 2) = Fulfilled"
      and same: "operations s1 = operations s" "submitted s1 = submitted s"
    by blast
  from chained_fire [OF c f1] have c1: "chained s1" .
  from same k w have k1: "k < submitted s1" and w1: "operations s1 k = Waiting" by simp_all
  from q kj have "promises s1 (2 * k) = Fulfilled" by simp
  from start_enabled [OF c1 k1 w1 this] obtain i' s'
    where "fire (React i') s1 = Some s'" "operations s' k = Executing (2 * k + 1)"
    by blast
  with f1 have "execute (map React [i, i']) s = Some s'
      \<and> operations s' k = Executing (2 * k + 1)"
    by simp
  then show ?thesis by blast
qed

lemma executing_submitted: "chained s \<Longrightarrow> operations s k = Executing p \<Longrightarrow> k < submitted s"
  unfolding chained_def by (metis linorder_not_less phase.distinct(1))

text \<open>
  C2. In every state that calls of \<^verbatim>\<open>runSerial\<close>, reaction jobs and completions of
  operations can reach from the idle queue: an operation that has started finds every
  operation submitted before it finished, so the operations start in the order of their
  submission; no two operations are executing at once; and a waiting operation whose
  predecessors have all finished, fulfilled or rejected alike, is started by reaction jobs
  alone.
\<close>

theorem runSerial_one_at_a_time_in_order:
  assumes "execute es idle = Some s"
  shows "(\<forall>j k. j < k \<and> k < submitted s \<and> operations s k \<noteq> Waiting \<longrightarrow>
            (\<exists>outcome. operations s j = Finished outcome))
         \<and> (\<forall>j k p q. operations s j = Executing p \<and> operations s k = Executing q \<longrightarrow> j = k)
         \<and> (\<forall>k. k < submitted s \<and> operations s k = Waiting
                \<and> (\<forall>j<k. \<exists>outcome. operations s j = Finished outcome) \<longrightarrow>
              (\<exists>rs s'. execute (map React rs) s = Some s'
                 \<and> operations s' k = Executing (2 * k + 1)))"
proof -
  from chained_execute [OF chained_idle assms] have c: "chained s" .
  have order: "\<exists>outcome. operations s j = Finished outcome"
    if "j < k" "k < submitted s" "operations s k \<noteq> Waiting" for j k
    using earlier_finished [OF c that(2,3,1)] .
  have one: "j = k" if e: "operations s j = Executing p" "operations s k = Executing q" for j k p q
  proof (rule ccontr)
    assume "j \<noteq> k"
    then consider "j < k" | "k < j" by linarith
    then show False
    proof cases
      case 1
      from order [OF 1 executing_submitted [OF c e(2)]] e show False by simp
    next
      case 2
      from order [OF 2 executing_submitted [OF c e(1)]] e show False by simp
    qed
  qed
  from order one next_can_start [OF c] show ?thesis by blast
qed

lemma ex_events_facts:
  "execute ex_events idle \<noteq> None"
  "submitted (the (execute ex_events idle)) = 2"
  "operations (the (execute ex_events idle)) 0 = Finished Rejected"
  "operations (the (execute ex_events idle)) 1 = Waiting"
  by (simp_all add: ex_events_def idle_def runSerial_def promise_then_def Let_def)

theorem runSerial_one_at_a_time_in_order_witness:
  "execute ex_events idle \<noteq> None
   \<and> submitted (the (execute ex_events idle)) = 2
   \<and> operations (the (execute ex_events idle)) 0 = Finished Rejected
   \<and> operations (the (execute ex_events idle)) 1 = Waiting
   \<and> (\<exists>rs s'. execute (map React rs) (the (execute ex_events idle)) = Some s'
         \<and> operations s' 1 = Executing 3)"
proof -
  from ex_events_facts(1) have e: "execute ex_events idle = Some (the (execute ex_events idle))"
    by simp
  have "1 < submitted (the (execute ex_events idle))
      \<and> operations (the (execute ex_events idle)) 1 = Waiting
      \<and> (\<forall>j<1. \<exists>outcome. operations (the (execute ex_events idle)) j = Finished outcome)"
    by (simp add: ex_events_facts ex_events_facts(4) [unfolded One_nat_def])
  with runSerial_one_at_a_time_in_order [OF e]
  have "\<exists>rs s'. execute (map React rs) (the (execute ex_events idle)) = Some s'
      \<and> operations s' 1 = Executing (2 * 1 + 1)"
    by blast
  with ex_events_facts show ?thesis by simp
qed

end
